theory Spec2Isabelle
  imports Complex_Main "HOL-Library.Signed_Division"
begin

section \<open>Conventions\<close>

text \<open>
  The repository holds four MPI programs that analyse a time-varying scalar field on a
  regular 3D grid: \<^verbatim>\<open>sainikhil_code/src.c\<close>, \<^verbatim>\<open>Venkatesh/1.c\<close>, \<^verbatim>\<open>Pankaj/pankaj_code.c\<close>
  and \<^verbatim>\<open>Pankaj/pankaj_code2.c\<close>.

  A C \<^verbatim>\<open>int\<close> is modelled as a mathematical \<^typ>\<open>int\<close>: signed overflow is undefined in C,
  so there is no wrap-around to write out, and the theorems below are about runs in which
  every intermediate value fits. C's \<^verbatim>\<open>/\<close> and \<^verbatim>\<open>%\<close> truncate towards zero: they are
  \<open>sdiv\<close> and \<open>smod\<close>. A division by zero traps; a function that can divide by zero
  returns \<open>None\<close> there.

  A \<^verbatim>\<open>float\<close> or \<^verbatim>\<open>double\<close> sample is modelled as a \<^typ>\<open>real\<close>: the programs only
  copy and compare samples, and on finite samples (no NaN, as the input contract demands)
  the C comparisons are the order of the reals. An array that the program reads by
  index is a function from the index to the cell's content.
\<close>

section \<open>Partitioner\<close>

subsection \<open>\<^verbatim>\<open>get_range\<close> of src.c (balanced block distribution)\<close>

text \<open>The struct \<^verbatim>\<open>Range {start, end, size}\<close>; \<^verbatim>\<open>end\<close> is the last owned index (inclusive).\<close>

record Range =
  range_start :: int
  range_end :: int
  range_size :: int

text \<open>
  The loop \<^verbatim>\<open>for (int i = 0; i < rank; i++) start += base + (i < remainder ? 1 : 0);\<close>
  with its loop variable \<open>i\<close> and accumulator \<open>start\<close>.
\<close>

function get_range_loop :: "int \<Rightarrow> int \<Rightarrow> int \<Rightarrow> int \<Rightarrow> int \<Rightarrow> int" where
  "get_range_loop rank base remainder i start =
     (if i < rank
      then get_range_loop rank base remainder (i + 1)
             (start + (base + (if i < remainder then 1 else 0)))
      else start)"
  by pat_completeness auto
termination
  by (relation "measure (\<lambda>(rank, base, remainder, i, start). nat (rank - i))") auto

declare get_range_loop.simps [simp del]

definition get_range :: "int \<Rightarrow> int \<Rightarrow> int \<Rightarrow> Range option" where
  "get_range rank tot sz =
     (if tot = 0 then None
      else
        let base = sz sdiv tot;
            remainder = sz smod tot;
            start = get_range_loop rank base remainder 0 0;
            local_size = base + (if rank < remainder then 1 else 0)
        in Some \<lparr> range_start = start, range_end = start + local_size - 1,
                  range_size = local_size \<rparr>)"

text \<open>
  The indices a worker owns along one axis: every loop over a range in src.c runs
  \<^verbatim>\<open>for (x = r.start; x <= r.end; x++)\<close>.
\<close>

definition range_cells :: "Range \<Rightarrow> int set" where
  "range_cells r = {range_start r .. range_end r}"

definition owned_cells :: "int \<Rightarrow> int \<Rightarrow> int \<Rightarrow> int set" where
  "owned_cells rank tot sz =
     (case get_range rank tot sz of None \<Rightarrow> {} | Some r \<Rightarrow> range_cells r)"

subsection \<open>The block of 1.c (tail-heavy distribution)\<close>

text \<open>
  1.c, lines 134-154, for one axis: \<^verbatim>\<open>local_nx = nx / px\<close>,
  \<^verbatim>\<open>start_x = px_id * local_nx\<close>,
  \<^verbatim>\<open>end_x = (px_id + 1 == px) ? nx : start_x + local_nx\<close>. The owned indices are
  \<^verbatim>\<open>start_x + x\<close> for \<^verbatim>\<open>0 <= x < end_x - start_x\<close>, so \<open>end\<close> is exclusive here.
\<close>

definition axis_start :: "int \<Rightarrow> int \<Rightarrow> int \<Rightarrow> int option" where
  "axis_start p_id p n = (if p = 0 then None else Some (p_id * (n sdiv p)))"

definition axis_end :: "int \<Rightarrow> int \<Rightarrow> int \<Rightarrow> int option" where
  "axis_end p_id p n =
     (if p = 0 then None
      else Some (if p_id + 1 = p then n else p_id * (n sdiv p) + (n sdiv p)))"

definition axis_cells :: "int \<Rightarrow> int \<Rightarrow> int \<Rightarrow> int set" where
  "axis_cells p_id p n =
     (case (axis_start p_id p n, axis_end p_id p n) of
        (Some s, Some e) \<Rightarrow> {s ..< e}
      | _ \<Rightarrow> {})"

section \<open>Partition coverage\<close>

lemma sdiv_nonneg_pos: "0 \<le> a \<Longrightarrow> 0 < b \<Longrightarrow> (a::int) sdiv b = a div b"
  by (simp add: signed_divide_int_def sgn_if)

lemma smod_nonneg_pos: "0 \<le> a \<Longrightarrow> 0 < b \<Longrightarrow> (a::int) smod b = a mod b"
  by (simp add: signed_modulo_int_def sgn_if)

lemma get_range_loop_closed:
  "i \<le> rank \<Longrightarrow>
   get_range_loop rank base remainder i start =
     start + (rank - i) * base + max 0 (min rank remainder - i)"
proof (induction rank base remainder i start rule: get_range_loop.induct)
  case (1 rank base remainder i start)
  show ?case
  proof (cases "i < rank")
    case True
    then have "get_range_loop rank base remainder i start =
        get_range_loop rank base remainder (i + 1)
          (start + (base + (if i < remainder then 1 else 0)))"
      by (subst get_range_loop.simps) simp
    also have "\<dots> = start + (base + (if i < remainder then 1 else 0))
        + (rank - (i + 1)) * base + max 0 (min rank remainder - (i + 1))"
      using True by (intro "1.IH") simp_all
    also have "\<dots> = start + (rank - i) * base + max 0 (min rank remainder - i)"
      using True by (simp add: algebra_simps)
    finally show ?thesis .
  next
    case False
    with "1.prems" have "i = rank" by simp
    then show ?thesis by (subst get_range_loop.simps) simp
  qed
qed

text \<open>The start computed for a worker, in closed form.\<close>

definition start_of :: "int \<Rightarrow> int \<Rightarrow> int \<Rightarrow> int" where
  "start_of rank tot sz = rank * (sz div tot) + min rank (sz mod tot)"

definition size_of :: "int \<Rightarrow> int \<Rightarrow> int \<Rightarrow> int" where
  "size_of rank tot sz = sz div tot + (if rank < sz mod tot then 1 else 0)"

lemma get_range_closed:
  assumes "0 < tot" "0 \<le> sz" "0 \<le> rank"
  shows "get_range rank tot sz =
           Some \<lparr> range_start = start_of rank tot sz,
                  range_end = start_of rank tot sz + size_of rank tot sz - 1,
                  range_size = size_of rank tot sz \<rparr>"
proof -
  have m: "0 \<le> sz mod tot" using assms by simp
  have "get_range_loop rank (sz div tot) (sz mod tot) 0 0 = start_of rank tot sz"
    using assms m by (simp add: get_range_loop_closed start_of_def min_def)
  then show ?thesis
    using assms by (simp add: get_range_def Let_def sdiv_nonneg_pos smod_nonneg_pos size_of_def)
qed

lemma start_of_0: "0 < tot \<Longrightarrow> 0 \<le> sz \<Longrightarrow> start_of 0 tot sz = 0"
  by (simp add: start_of_def)

lemma start_of_Suc:
  "start_of (rank + 1) tot sz = start_of rank tot sz + size_of rank tot sz"
  by (simp add: start_of_def size_of_def algebra_simps min_def)

lemma start_of_total: "0 < tot \<Longrightarrow> start_of tot tot sz = sz"
proof -
  assume t: "0 < tot"
  then have "sz mod tot < tot" by simp
  then have "min tot (sz mod tot) = sz mod tot" by simp
  then show ?thesis by (simp add: start_of_def mult.commute)
qed

lemma size_of_pos: "0 < tot \<Longrightarrow> tot \<le> sz \<Longrightarrow> 0 < size_of rank tot sz"
proof -
  assume t: "0 < tot" "tot \<le> sz"
  then have "1 \<le> sz div tot" by (simp add: pos_imp_zdiv_pos_iff int_one_le_iff_zero_less)
  then show ?thesis by (simp add: size_of_def)
qed

lemma size_of_nonneg: "0 < tot \<Longrightarrow> 0 \<le> sz \<Longrightarrow> 0 \<le> size_of rank tot sz"
  by (simp add: size_of_def pos_imp_zdiv_nonneg_iff)

lemma start_of_mono_step:
  assumes "0 < tot" "0 \<le> sz"
  shows "start_of rank tot sz \<le> start_of (rank + 1) tot sz"
  using size_of_nonneg [OF assms, of rank] by (simp add: start_of_Suc)

lemma start_of_mono:
  assumes "0 < tot" "0 \<le> sz" "i \<le> j"
  shows "start_of i tot sz \<le> start_of j tot sz"
proof -
  have "start_of i tot sz \<le> start_of (i + int k) tot sz" for k
  proof (induction k)
    case 0
    then show ?case by simp
  next
    case (Suc k)
    have "start_of (i + int k) tot sz \<le> start_of (i + int k + 1) tot sz"
      by (rule start_of_mono_step [OF assms(1,2)])
    moreover have "i + int (Suc k) = i + int k + 1" by simp
    ultimately show ?case using Suc by (simp only: order_trans)
  qed
  from this [of "nat (j - i)"] assms(3) show ?thesis by simp
qed

lemma owned_cells_closed:
  assumes "0 < tot" "0 \<le> sz" "0 \<le> rank"
  shows "owned_cells rank tot sz =
           {start_of rank tot sz ..< start_of (rank + 1) tot sz}"
  using assms
  by (auto simp: owned_cells_def get_range_closed range_cells_def start_of_Suc)

lemma covering_index:
  assumes t: "0 < tot" and s: "0 \<le> sz" and x: "0 \<le> x" "x < sz"
  shows "\<exists>i. 0 \<le> i \<and> i < tot \<and>
             start_of i tot sz \<le> x \<and> x < start_of (i + 1) tot sz"
proof -
  have "\<exists>i. 0 \<le> i \<and> i < int n \<and> start_of i tot sz \<le> x \<and> x < start_of (i + 1) tot sz"
    if "x < start_of (int n) tot sz" for n
    using that
  proof (induction n)
    case 0
    with x t s show ?case by (simp add: start_of_0)
  next
    case (Suc n)
    show ?case
    proof (cases "x < start_of (int n) tot sz")
      case True
      from Suc.IH [OF True] show ?thesis by force
    next
      case False
      with Suc.prems have "start_of (int n) tot sz \<le> x \<and> x < start_of (int n + 1) tot sz"
        by (simp add: add.commute)
      then show ?thesis by (intro exI [of _ "int n"]) simp
    qed
  qed
  from this [of "nat tot"] t x show ?thesis by (simp add: start_of_total)
qed

lemma owned_cells_union:
  assumes "0 < tot" "0 \<le> sz"
  shows "(\<Union>i\<in>{0..<tot}. owned_cells i tot sz) = {0..<sz}"
proof (intro set_eqI iffI)
  fix x assume "x \<in> (\<Union>i\<in>{0..<tot}. owned_cells i tot sz)"
  then obtain i where i: "0 \<le> i" "i < tot" and x: "x \<in> owned_cells i tot sz" by auto
  from x i assms have b: "start_of i tot sz \<le> x" "x < start_of (i + 1) tot sz"
    by (simp_all add: owned_cells_closed)
  have "start_of 0 tot sz \<le> start_of i tot sz"
    by (rule start_of_mono [OF assms i(1)])
  moreover have "start_of (i + 1) tot sz \<le> start_of tot tot sz"
    using i by (intro start_of_mono [OF assms]) simp
  ultimately show "x \<in> {0..<sz}"
    using b assms by (simp add: start_of_0 start_of_total)
next
  fix x assume "x \<in> {0..<sz}"
  then have "0 \<le> x" "x < sz" by simp_all
  from covering_index [OF assms this] obtain i where
    "0 \<le> i" "i < tot" "start_of i tot sz \<le> x" "x < start_of (i + 1) tot sz" by blast
  then show "x \<in> (\<Union>i\<in>{0..<tot}. owned_cells i tot sz)"
    using assms by (auto simp: owned_cells_closed)
qed

lemma owned_cells_disjoint:
  assumes "0 < tot" "0 \<le> sz" "0 \<le> i" "i < j"
  shows "owned_cells i tot sz \<inter> owned_cells j tot sz = {}"
proof -
  have "start_of (i + 1) tot sz \<le> start_of j tot sz"
    using assms by (intro start_of_mono) simp_all
  then show ?thesis
    using assms by (auto simp: owned_cells_closed)
qed


text \<open>The same facts for any increasing sequence of block edges, used for the blocks of 1.c.\<close>

lemma edges_mono:
  fixes b :: "int \<Rightarrow> int"
  assumes step: "\<And>i. 0 \<le> i \<Longrightarrow> i < tot \<Longrightarrow> b i \<le> b (i + 1)"
    and "0 \<le> i" "i \<le> j" "j \<le> tot"
  shows "b i \<le> b j"
proof -
  have "i + int k \<le> tot \<Longrightarrow> b i \<le> b (i + int k)" for k
  proof (induction k)
    case 0
    then show ?case by simp
  next
    case (Suc k)
    then have le: "b i \<le> b (i + int k)" by simp
    have "b (i + int k) \<le> b (i + int k + 1)"
      using Suc.prems assms(2) by (intro step) simp_all
    moreover have "i + int (Suc k) = i + int k + 1" by simp
    ultimately show ?case using le by (simp only: order_trans)
  qed
  from this [of "nat (j - i)"] assms(3,4) show ?thesis by simp
qed

lemma edges_cover:
  fixes b :: "int \<Rightarrow> int"
  assumes step: "\<And>i. 0 \<le> i \<Longrightarrow> i < tot \<Longrightarrow> b i \<le> b (i + 1)"
    and b0: "b 0 = 0" and bt: "b tot = sz" and t: "0 < tot"
  shows "(\<Union>i\<in>{0..<tot}. {b i ..< b (i + 1)}) = {0..<sz}"
proof (intro set_eqI iffI)
  fix x assume "x \<in> (\<Union>i\<in>{0..<tot}. {b i ..< b (i + 1)})"
  then obtain i where i: "0 \<le> i" "i < tot" and x: "b i \<le> x" "x < b (i + 1)" by auto
  have "b 0 \<le> b i" using i by (intro edges_mono [of tot b, OF step]) simp_all
  moreover have "b (i + 1) \<le> b tot" using i by (intro edges_mono [of tot b, OF step]) simp_all
  ultimately show "x \<in> {0..<sz}" using x b0 bt by simp
next
  fix x assume xs: "x \<in> {0..<sz}"
  have "\<exists>i. 0 \<le> i \<and> i < int n \<and> b i \<le> x \<and> x < b (i + 1)" if "x < b (int n)" for n
    using that
  proof (induction n)
    case 0
    with xs b0 show ?case by simp
  next
    case (Suc n)
    show ?case
    proof (cases "x < b (int n)")
      case True
      from Suc.IH [OF True] show ?thesis by force
    next
      case False
      with Suc.prems have "b (int n) \<le> x \<and> x < b (int n + 1)"
        by (simp add: add.commute)
      then show ?thesis by (intro exI [of _ "int n"]) simp
    qed
  qed
  from this [of "nat tot"] t xs bt obtain i where
    "0 \<le> i" "i < tot" "b i \<le> x" "x < b (i + 1)" by auto
  then show "x \<in> (\<Union>i\<in>{0..<tot}. {b i ..< b (i + 1)})" by auto
qed

lemma edges_disjoint:
  fixes b :: "int \<Rightarrow> int"
  assumes step: "\<And>i. 0 \<le> i \<Longrightarrow> i < tot \<Longrightarrow> b i \<le> b (i + 1)"
    and "0 \<le> i" "i < j" "j < tot"
  shows "{b i ..< b (i + 1)} \<inter> {b j ..< b (j + 1)} = {}"
proof -
  have "b (i + 1) \<le> b j" using assms(2-4) by (intro edges_mono [of tot b, OF step]) simp_all
  then show ?thesis by auto
qed

text \<open>The block edges of 1.c: worker \<open>i\<close> owns from \<open>edge_of i\<close> up to \<open>edge_of (i + 1)\<close>.\<close>

definition edge_of :: "int \<Rightarrow> int \<Rightarrow> int \<Rightarrow> int" where
  "edge_of i p n = (if i = p then n else i * (n div p))"

lemma axis_cells_closed:
  assumes "0 < p" "0 \<le> n" "0 \<le> i" "i < p"
  shows "axis_cells i p n = {edge_of i p n ..< edge_of (i + 1) p n}"
  using assms
  by (simp add: axis_cells_def axis_start_def axis_end_def edge_of_def sdiv_nonneg_pos
      algebra_simps)

lemma edge_of_step:
  assumes "0 < p" "0 \<le> n" "0 \<le> i" "i < p"
  shows "edge_of i p n \<le> edge_of (i + 1) p n"
proof -
  have d: "0 \<le> n div p" using assms by (simp add: pos_imp_zdiv_nonneg_iff)
  have "p * (n div p) \<le> n"
    using mult_div_mod_eq [of p n] pos_mod_sign [OF assms(1), of n] by linarith
  moreover have "i * (n div p) \<le> p * (n div p)"
    using assms d by (intro mult_right_mono) simp_all
  moreover have "i * (n div p) \<le> (i + 1) * (n div p)"
    using d by (intro mult_right_mono) simp_all
  ultimately show ?thesis using assms by (simp add: edge_of_def)
qed

lemma edge_of_strict:
  assumes "0 < p" "p \<le> n" "0 \<le> i" "i < p"
  shows "edge_of i p n < edge_of (i + 1) p n"
proof -
  have d: "1 \<le> n div p"
    using assms by (simp add: pos_imp_zdiv_pos_iff int_one_le_iff_zero_less)
  have pn: "p * (n div p) \<le> n"
    using mult_div_mod_eq [of p n] pos_mod_sign [OF assms(1), of n] by linarith
  have "(i + 1) * (n div p) \<le> p * (n div p)"
    using assms d by (intro mult_right_mono) simp_all
  with pn have "(i + 1) * (n div p) \<le> n" by simp
  then have "i * (n div p) + n div p \<le> n" by (simp add: algebra_simps)
  with d have "i * (n div p) < n" by simp
  moreover have "i * (n div p) < (i + 1) * (n div p)" using d by (simp add: algebra_simps)
  ultimately show ?thesis using assms by (simp add: edge_of_def)
qed

lemma axis_cells_union:
  assumes "0 < p" "0 \<le> n"
  shows "(\<Union>i\<in>{0..<p}. axis_cells i p n) = {0..<n}"
proof -
  have "(\<Union>i\<in>{0..<p}. axis_cells i p n)
      = (\<Union>i\<in>{0..<p}. {edge_of i p n ..< edge_of (i + 1) p n})"
    using assms by (intro SUP_cong refl axis_cells_closed) simp_all
  also have "\<dots> = {0..<n}"
  proof (rule edges_cover [of p "\<lambda>i. edge_of i p n" n])
    show "edge_of 0 p n = 0" using assms by (simp add: edge_of_def)
    show "edge_of p p n = n" by (simp add: edge_of_def)
  qed (use assms in \<open>simp_all add: edge_of_step\<close>)
  finally show ?thesis .
qed

lemma axis_cells_disjoint:
  assumes "0 < p" "0 \<le> n" "0 \<le> i" "i < j" "j < p"
  shows "axis_cells i p n \<inter> axis_cells j p n = {}"
proof -
  have "{edge_of i p n ..< edge_of (i + 1) p n} \<inter> {edge_of j p n ..< edge_of (j + 1) p n} = {}"
    using assms by (intro edges_disjoint [of p "\<lambda>i. edge_of i p n", OF edge_of_step]) simp_all
  then show ?thesis using assms by (simp add: axis_cells_closed)
qed

text \<open>
  Claim C4 (partition coverage). For an axis of extent \<open>sz\<close> split among \<open>tot\<close> workers
  with \<open>sz \<ge> tot > 0\<close>: \<^verbatim>\<open>get_range\<close> of src.c returns, for every worker \<open>i\<close> in
  \<open>[0, tot)\<close>, a non-empty range that is the half-open interval
  \<open>[start, start + size)\<close>; the first range starts at 0, each next range starts where the
  previous one ends, the last one ends at \<open>sz\<close>; the ranges are pairwise disjoint and
  their union is exactly \<open>[0, sz)\<close>. The tail-heavy blocks of 1.c have the same
  properties.
\<close>

theorem partition_coverage:
  assumes "0 < tot" and "tot \<le> sz"
  shows "(\<forall>i\<in>{0..<tot}. \<exists>r. get_range i tot sz = Some r \<and> 0 < range_size r
              \<and> range_cells r = {range_start r ..< range_start r + range_size r}
              \<and> (i = 0 \<longrightarrow> range_start r = 0)
              \<and> (i + 1 = tot \<longrightarrow> range_start r + range_size r = sz)
              \<and> (\<forall>r'. get_range (i + 1) tot sz = Some r' \<longrightarrow>
                    range_start r' = range_start r + range_size r))
       \<and> (\<Union>i\<in>{0..<tot}. owned_cells i tot sz) = {0..<sz}
       \<and> (\<forall>i\<in>{0..<tot}. \<forall>j\<in>{0..<tot}. i \<noteq> j \<longrightarrow>
              owned_cells i tot sz \<inter> owned_cells j tot sz = {})
       \<and> (\<forall>i\<in>{0..<tot}. axis_cells i tot sz \<noteq> {})
       \<and> (\<Union>i\<in>{0..<tot}. axis_cells i tot sz) = {0..<sz}
       \<and> (\<forall>i\<in>{0..<tot}. \<forall>j\<in>{0..<tot}. i \<noteq> j \<longrightarrow>
              axis_cells i tot sz \<inter> axis_cells j tot sz = {})"
proof -
  from assms have s: "0 \<le> sz" by simp
  have A: "\<exists>r. get_range i tot sz = Some r \<and> 0 < range_size r
              \<and> range_cells r = {range_start r ..< range_start r + range_size r}
              \<and> (i = 0 \<longrightarrow> range_start r = 0)
              \<and> (i + 1 = tot \<longrightarrow> range_start r + range_size r = sz)
              \<and> (\<forall>r'. get_range (i + 1) tot sz = Some r' \<longrightarrow>
                    range_start r' = range_start r + range_size r)"
    if "i \<in> {0..<tot}" for i
  proof -
    from that have i: "0 \<le> i" "i < tot" by simp_all
    let ?r = "\<lparr> range_start = start_of i tot sz,
                range_end = start_of i tot sz + size_of i tot sz - 1,
                range_size = size_of i tot sz \<rparr>"
    have g: "get_range i tot sz = Some ?r"
      by (rule get_range_closed [OF assms(1) s i(1)])
    have g': "get_range (i + 1) tot sz = Some r' \<Longrightarrow> range_start r' = start_of (i + 1) tot sz"
      for r'
      using get_range_closed [OF assms(1) s, of "i + 1"] i by auto
    have "start_of i tot sz + size_of i tot sz = sz" if "i + 1 = tot"
      using start_of_total [OF assms(1), of sz] that start_of_Suc [of i tot sz] by simp
    then show ?thesis
      using g g' size_of_pos [OF assms, of i] start_of_0 [OF assms(1) s]
      by (auto simp: range_cells_def start_of_Suc)
  qed
  have B: "owned_cells i tot sz \<inter> owned_cells j tot sz = {}"
    if "i \<in> {0..<tot}" "j \<in> {0..<tot}" "i \<noteq> j" for i j
  proof (cases "i < j")
    case True
    then show ?thesis using that by (intro owned_cells_disjoint [OF assms(1) s]) simp_all
  next
    case False
    with that have "j < i" by simp
    then have "owned_cells j tot sz \<inter> owned_cells i tot sz = {}"
      using that by (intro owned_cells_disjoint [OF assms(1) s]) simp_all
    then show ?thesis by (simp add: Int_commute)
  qed
  have C: "axis_cells i tot sz \<noteq> {}" if "i \<in> {0..<tot}" for i
    using that edge_of_strict [OF assms, of i] axis_cells_closed [OF assms(1) s, of i] by simp
  have D: "axis_cells i tot sz \<inter> axis_cells j tot sz = {}"
    if "i \<in> {0..<tot}" "j \<in> {0..<tot}" "i \<noteq> j" for i j
  proof (cases "i < j")
    case True
    then show ?thesis using that by (intro axis_cells_disjoint [OF assms(1) s]) simp_all
  next
    case False
    with that have "j < i" by simp
    then have "axis_cells j tot sz \<inter> axis_cells i tot sz = {}"
      using that by (intro axis_cells_disjoint [OF assms(1) s]) simp_all
    then show ?thesis by (simp add: Int_commute)
  qed
  show ?thesis
  proof (intro conjI ballI impI)
    show "(\<Union>i\<in>{0..<tot}. owned_cells i tot sz) = {0..<sz}"
      by (rule owned_cells_union [OF assms(1) s])
    show "(\<Union>i\<in>{0..<tot}. axis_cells i tot sz) = {0..<sz}"
      by (rule axis_cells_union [OF assms(1) s])
  qed (fact A B C D)+
qed

theorem partition_coverage_witness:
  "(0::int) < 2 \<and> (2::int) \<le> 5
   \<and> get_range 0 2 5 = Some \<lparr> range_start = 0, range_end = 2, range_size = 3 \<rparr>
   \<and> get_range 1 2 5 = Some \<lparr> range_start = 3, range_end = 4, range_size = 2 \<rparr>
   \<and> (\<Union>i\<in>{0..<2}. owned_cells i 2 5) = {0..<5}"
proof -
  have a: "(0::int) < 2" and b: "(2::int) \<le> 5" by simp_all
  have g0: "get_range 0 2 5 = Some \<lparr> range_start = 0, range_end = 2, range_size = 3 \<rparr>"
    unfolding get_range_def Let_def
    by (simp add: signed_divide_int_def signed_modulo_int_def)
      ((subst get_range_loop.simps, simp)+)
  have g1: "get_range 1 2 5 = Some \<lparr> range_start = 3, range_end = 4, range_size = 2 \<rparr>"
    unfolding get_range_def Let_def
    by (simp add: signed_divide_int_def signed_modulo_int_def)
      ((subst get_range_loop.simps, simp)+)
  have u: "(\<Union>i\<in>{0..<2}. owned_cells i 2 5) = {0..<5}"
    by (rule conjunct1 [OF conjunct2 [OF partition_coverage [OF a b]]])
  show ?thesis
    by (intro conjI a b g0 g1 u)
qed


section \<open>Extrema detection\<close>

subsection \<open>The classification loop of src.c\<close>

text \<open>
  What the loop of src.c, lines 236-275, reads besides the halo: the first owned global
  index on each axis (\<^verbatim>\<open>x_range.start\<close>, ...), the extents of the owned block and the
  extents of the global domain.
\<close>

record block =
  x_range_start :: int
  y_range_start :: int
  z_range_start :: int
  x_local :: int
  y_local :: int
  z_local :: int
  NX :: int
  NY :: int
  NZ :: int

text \<open>\<^verbatim>\<open>halo[i][j][k]\<close> is \<open>halo (i, j, k)\<close>.\<close>

type_synonym halo = "int \<times> int \<times> int \<Rightarrow> real"

definition FLT_MAX :: real where
  "FLT_MAX = (2 ^ 24 - 1) * 2 ^ 104"

definition neighbors :: "int \<Rightarrow> int \<Rightarrow> int \<Rightarrow> (int \<times> int \<times> int) list" where
  "neighbors i j k =
     [(i - 1, j, k), (i + 1, j, k), (i, j - 1, k), (i, j + 1, k), (i, j, k - 1), (i, j, k + 1)]"

text \<open>The guard of \<^verbatim>\<open>continue\<close> (lines 258-262).\<close>

definition out_of_bounds :: "block \<Rightarrow> int \<times> int \<times> int \<Rightarrow> bool" where
  "out_of_bounds g n =
     (case n of (ni, nj, nk) \<Rightarrow>
        ni < 0 \<or> ni \<ge> x_local g + 2 \<or> nj < 0 \<or> nj \<ge> y_local g + 2 \<or>
        nk < 0 \<or> nk \<ge> z_local g + 2 \<or>
        x_range_start g + ni - 1 < 0 \<or> x_range_start g + ni - 1 \<ge> NX g \<or>
        y_range_start g + nj - 1 < 0 \<or> y_range_start g + nj - 1 \<ge> NY g \<or>
        z_range_start g + nk - 1 < 0 \<or> z_range_start g + nk - 1 \<ge> NZ g)"

text \<open>
  The loop over the six neighbours (lines 252-267); the flags \<^verbatim>\<open>is_min\<close> and
  \<^verbatim>\<open>is_max\<close> (C ints holding 0 or 1) are booleans.
\<close>

fun neighbor_loop :: "halo \<Rightarrow> block \<Rightarrow> real \<Rightarrow> (int \<times> int \<times> int) list \<Rightarrow> bool \<times> bool \<Rightarrow> bool \<times> bool"
  where
  "neighbor_loop halo g val [] (is_min, is_max) = (is_min, is_max)"
| "neighbor_loop halo g val (n # ns) (is_min, is_max) =
     (if out_of_bounds g n then neighbor_loop halo g val ns (is_min, is_max)
      else
        let nval = halo n;
            is_min = (if nval \<le> val then False else is_min);
            is_max = (if nval \<ge> val then False else is_max)
        in neighbor_loop halo g val ns (is_min, is_max))"

definition classify_cell :: "halo \<Rightarrow> block \<Rightarrow> int \<times> int \<times> int \<Rightarrow> bool \<times> bool" where
  "classify_cell halo g c =
     (case c of (i, j, k) \<Rightarrow> neighbor_loop halo g (halo (i, j, k)) (neighbors i j k) (True, True))"

text \<open>The per-timestep results \<^verbatim>\<open>cnt_min, cnt_max, lmin, lmax\<close> (lines 198-199).\<close>

record tally =
  cnt_min :: int
  cnt_max :: int
  lmin :: real
  lmax :: real

definition cell_step :: "halo \<Rightarrow> block \<Rightarrow> int \<times> int \<times> int \<Rightarrow> tally \<Rightarrow> tally" where
  "cell_step halo g c s =
     (let val = halo c;
          (is_min, is_max) = classify_cell halo g c
      in \<lparr> cnt_min = (if is_min then cnt_min s + 1 else cnt_min s),
           cnt_max = (if is_max then cnt_max s + 1 else cnt_max s),
           lmin = (if val < lmin s then val else lmin s),
           lmax = (if val > lmax s then val else lmax s) \<rparr>)"

text \<open>The three nested loops over the owned cells \<open>1..x_local\<close>, \<open>1..y_local\<close>, \<open>1..z_local\<close>.\<close>

definition scan_cells :: "halo \<Rightarrow> block \<Rightarrow> tally" where
  "scan_cells halo g =
     fold (\<lambda>i. fold (\<lambda>j. fold (\<lambda>k. cell_step halo g (i, j, k)) [1 .. z_local g])
                  [1 .. y_local g])
          [1 .. x_local g]
          \<lparr> cnt_min = 0, cnt_max = 0, lmin = FLT_MAX, lmax = - FLT_MAX \<rparr>"

text \<open>
  A halo cell is owned when it is not a ghost cell; it lies in the global domain when its
  global coordinates \<open>start + index - 1\<close> do.
\<close>

definition owned :: "block \<Rightarrow> int \<times> int \<times> int \<Rightarrow> bool" where
  "owned g c = (case c of (i, j, k) \<Rightarrow>
     1 \<le> i \<and> i \<le> x_local g \<and> 1 \<le> j \<and> j \<le> y_local g \<and> 1 \<le> k \<and> k \<le> z_local g)"

definition in_domain :: "block \<Rightarrow> int \<times> int \<times> int \<Rightarrow> bool" where
  "in_domain g c = (case c of (i, j, k) \<Rightarrow>
     0 \<le> x_range_start g + i - 1 \<and> x_range_start g + i - 1 < NX g \<and>
     0 \<le> y_range_start g + j - 1 \<and> y_range_start g + j - 1 < NY g \<and>
     0 \<le> z_range_start g + k - 1 \<and> z_range_start g + k - 1 < NZ g)"

subsection \<open>\<^verbatim>\<open>is_min\<close> and \<^verbatim>\<open>is_max\<close> of 1.c\<close>

definition idx3d :: "int \<Rightarrow> int \<Rightarrow> int \<Rightarrow> int \<Rightarrow> int \<Rightarrow> int" where
  "idx3d x y z nx ny = (z * ny + y) * nx + x"

definition nbrs :: "(int \<times> int \<times> int) list" where
  "nbrs = [(-1, 0, 0), (1, 0, 0), (0, -1, 0), (0, 1, 0), (0, 0, -1), (0, 0, 1)]"

text \<open>What one run of a loop body does: go on with the next iteration, or return a value.\<close>

datatype 'a flow = Continue | Return 'a

text \<open>
  The body of the loop of \<^verbatim>\<open>is_min\<close> (lines 22-32) for the offset \<^verbatim>\<open>nbrs[i]\<close>. The body
  declares \<^verbatim>\<open>int nx, ny, nz\<close>, which hide the parameters of the same names for the rest
  of the body: the \<open>let\<close> below hides them in the same way, so that the guard and
  the call of \<^verbatim>\<open>idx3d\<close> read the neighbour's coordinates where the extents were meant.
\<close>

definition is_min_body ::
  "(int \<Rightarrow> real) \<Rightarrow> int \<Rightarrow> int \<Rightarrow> int \<Rightarrow> int \<Rightarrow> int \<Rightarrow> int \<Rightarrow> int \<Rightarrow> int \<Rightarrow> real
     \<Rightarrow> int \<times> int \<times> int \<Rightarrow> int flow" where
  "is_min_body data x y z nx ny nz t nt val d =
     (case d of (d0, d1, d2) \<Rightarrow>
        let nx = x + d0;
            ny = y + d1;
            nz = z + d2
        in if nx < 0 \<or> nx \<ge> nx \<or> ny < 0 \<or> ny \<ge> ny \<or> nz < 0 \<or> nz \<ge> nz then Continue
           else
             let nidx = idx3d nx ny nz nx ny
             in if data (nidx * nt + t) < val then Return 0 else Continue)"

definition is_max_body ::
  "(int \<Rightarrow> real) \<Rightarrow> int \<Rightarrow> int \<Rightarrow> int \<Rightarrow> int \<Rightarrow> int \<Rightarrow> int \<Rightarrow> int \<Rightarrow> int \<Rightarrow> real
     \<Rightarrow> int \<times> int \<times> int \<Rightarrow> int flow" where
  "is_max_body data x y z nx ny nz t nt val d =
     (case d of (d0, d1, d2) \<Rightarrow>
        let nx = x + d0;
            ny = y + d1;
            nz = z + d2
        in if nx < 0 \<or> nx \<ge> nx \<or> ny < 0 \<or> ny \<ge> ny \<or> nz < 0 \<or> nz \<ge> nz then Continue
           else
             let nidx = idx3d nx ny nz nx ny
             in if data (nidx * nt + t) > val then Return 0 else Continue)"

text \<open>The loop \<^verbatim>\<open>for (int i = 0; i < 6; i++)\<close> over the offsets, and the final \<^verbatim>\<open>return 1\<close>.\<close>

fun run_loop :: "('b \<Rightarrow> int flow) \<Rightarrow> 'b list \<Rightarrow> int" where
  "run_loop body [] = 1"
| "run_loop body (d # ds) =
     (case body d of Return r \<Rightarrow> r | Continue \<Rightarrow> run_loop body ds)"

definition is_min ::
  "(int \<Rightarrow> real) \<Rightarrow> int \<Rightarrow> int \<Rightarrow> int \<Rightarrow> int \<Rightarrow> int \<Rightarrow> int \<Rightarrow> int \<Rightarrow> int \<Rightarrow> int" where
  "is_min data x y z nx ny nz t nt =
     (let center = idx3d x y z nx ny;
          val = data (center * nt + t)
      in run_loop (is_min_body data x y z nx ny nz t nt val) nbrs)"

definition is_max ::
  "(int \<Rightarrow> real) \<Rightarrow> int \<Rightarrow> int \<Rightarrow> int \<Rightarrow> int \<Rightarrow> int \<Rightarrow> int \<Rightarrow> int \<Rightarrow> int \<Rightarrow> int" where
  "is_max data x y z nx ny nz t nt =
     (let center = idx3d x y z nx ny;
          val = data (center * nt + t)
      in run_loop (is_max_body data x y z nx ny nz t nt val) nbrs)"

subsection \<open>\<^verbatim>\<open>checkLocalMinima\<close> and \<^verbatim>\<open>checkLocalMaxima\<close> of pankaj\_code2.c\<close>

definition threeD_To_oneD :: "int \<Rightarrow> int \<Rightarrow> int \<Rightarrow> int \<Rightarrow> int \<Rightarrow> int \<Rightarrow> int" where
  "threeD_To_oneD x y z width height depth = (z * height + y) * width + x"

definition checkLocalMinima ::
  "(int \<Rightarrow> real) \<Rightarrow> int \<Rightarrow> int \<Rightarrow> int \<Rightarrow> int \<Rightarrow> int \<Rightarrow> int \<Rightarrow> bool" where
  "checkLocalMinima data x y z width height depth =
     (let idx = threeD_To_oneD x y z width height depth;
          val = data idx;
          isMinima = True;
          isMinima = (if x > 0 \<and> data (idx - 1) < val then False else isMinima);
          isMinima = (if x < width - 1 \<and> data (idx + 1) < val then False else isMinima);
          isMinima = (if y > 0 \<and> data (idx - width) < val then False else isMinima);
          isMinima = (if y < height - 1 \<and> data (idx + width) < val then False else isMinima);
          isMinima = (if z > 0 \<and> data (idx - height * width) < val then False else isMinima);
          isMinima = (if z < depth - 1 \<and> data (idx + height * width) < val then False
                      else isMinima)
      in isMinima)"

definition checkLocalMaxima ::
  "(int \<Rightarrow> real) \<Rightarrow> int \<Rightarrow> int \<Rightarrow> int \<Rightarrow> int \<Rightarrow> int \<Rightarrow> int \<Rightarrow> bool" where
  "checkLocalMaxima data x y z width height depth =
     (let idx = threeD_To_oneD x y z width height depth;
          val = data idx;
          isMaxima = True;
          isMaxima = (if x > 0 \<and> data (idx - 1) > val then False else isMaxima);
          isMaxima = (if x < width - 1 \<and> data (idx + 1) > val then False else isMaxima);
          isMaxima = (if y > 0 \<and> data (idx - width) > val then False else isMaxima);
          isMaxima = (if y < height - 1 \<and> data (idx + width) > val then False else isMaxima);
          isMaxima = (if z > 0 \<and> data (idx - height * width) > val then False else isMaxima);
          isMaxima = (if z < depth - 1 \<and> data (idx + height * width) > val then False
                      else isMaxima)
      in isMaxima)"

text \<open>A position of the local block, and the sample the two functions read for it.\<close>

definition in_block :: "int \<Rightarrow> int \<Rightarrow> int \<Rightarrow> int \<times> int \<times> int \<Rightarrow> bool" where
  "in_block width height depth c = (case c of (x, y, z) \<Rightarrow>
     0 \<le> x \<and> x < width \<and> 0 \<le> y \<and> y < height \<and> 0 \<le> z \<and> z < depth)"

definition sample :: "(int \<Rightarrow> real) \<Rightarrow> int \<Rightarrow> int \<Rightarrow> int \<Rightarrow> int \<times> int \<times> int \<Rightarrow> real" where
  "sample data width height depth c =
     (case c of (x, y, z) \<Rightarrow> data (threeD_To_oneD x y z width height depth))"

definition flat_field :: "real \<Rightarrow> int \<Rightarrow> real" where
  "flat_field c i = c"

subsection \<open>The sub-domain and the scan of pankaj\_code2.c\<close>

definition DBL_MAX :: real where
  "DBL_MAX = (2 ^ 53 - 1) * 2 ^ 971"

text \<open>
  The block a rank owns (\<^verbatim>\<open>start..end\<close>, inclusive) and the block it holds
  (\<^verbatim>\<open>tempStart..tempEnd\<close>: the owned block and one more layer on every side that has
  one), lines 153-179. A zero \<^verbatim>\<open>pX\<close>, \<^verbatim>\<open>pY\<close> or \<^verbatim>\<open>pZ\<close> makes a division trap.
\<close>

record subdomain =
  startX :: int
  startY :: int
  startZ :: int
  endX :: int
  endY :: int
  endZ :: int
  tempStartX :: int
  tempStartY :: int
  tempStartZ :: int
  tempEndX :: int
  tempEndY :: int
  tempEndZ :: int

definition subdomain_of :: "int \<Rightarrow> int \<Rightarrow> int \<Rightarrow> int \<Rightarrow> int \<Rightarrow> int \<Rightarrow> int \<Rightarrow> subdomain option"
  where
  "subdomain_of cur_rank pX pY pZ nX nY nZ =
     (if pX = 0 \<or> pY = 0 \<or> pZ = 0 then None
      else
        let subDomainZ = cur_rank sdiv (pX * pY);
            subDomainY = (cur_rank smod (pX * pY)) sdiv pX;
            subDomainX = cur_rank smod pX;
            subDomainSizeX = nX sdiv pX;
            subDomainSizeY = nY sdiv pY;
            subDomainSizeZ = nZ sdiv pZ;
            startX = subDomainX * subDomainSizeX;
            startY = subDomainY * subDomainSizeY;
            startZ = subDomainZ * subDomainSizeZ;
            endX = startX + subDomainSizeX - 1;
            endX = (if subDomainX = pX - 1 then nX - 1 else endX);
            endY = startY + subDomainSizeY - 1;
            endY = (if subDomainY = pY - 1 then nY - 1 else endY);
            endZ = startZ + subDomainSizeZ - 1;
            endZ = (if subDomainZ = pZ - 1 then nZ - 1 else endZ);
            tempStartX = (if startX - 1 \<ge> 0 then startX - 1 else startX);
            tempStartY = (if startY - 1 \<ge> 0 then startY - 1 else startY);
            tempStartZ = (if startZ - 1 \<ge> 0 then startZ - 1 else startZ);
            tempEndX = (if endX + 1 \<le> nX - 1 then endX + 1 else endX);
            tempEndY = (if endY + 1 \<le> nY - 1 then endY + 1 else endY);
            tempEndZ = (if endZ + 1 \<le> nZ - 1 then endZ + 1 else endZ)
        in Some \<lparr> startX = startX, startY = startY, startZ = startZ,
                  endX = endX, endY = endY, endZ = endZ,
                  tempStartX = tempStartX, tempStartY = tempStartY, tempStartZ = tempStartZ,
                  tempEndX = tempEndX, tempEndY = tempEndY, tempEndZ = tempEndZ \<rparr>)"

text \<open>
  The four result arrays of a rank, each of length \<^verbatim>\<open>timeSteps\<close> (lines 255-263): the
  counts start at 0 (\<^verbatim>\<open>calloc\<close>), the extremes at \<^verbatim>\<open>DBL_MAX\<close> and \<^verbatim>\<open>-DBL_MAX\<close>.
\<close>

record results =
  localMinimaCount :: "int list"
  localMaximaCount :: "int list"
  subDomainMinValues :: "real list"
  subDomainMaxValues :: "real list"

definition initial_results :: "int \<Rightarrow> results" where
  "initial_results timeSteps =
     \<lparr> localMinimaCount = replicate (nat timeSteps) 0,
       localMaximaCount = replicate (nat timeSteps) 0,
       subDomainMinValues = replicate (nat timeSteps) DBL_MAX,
       subDomainMaxValues = replicate (nat timeSteps) (- DBL_MAX) \<rparr>"

text \<open>
  The body of the innermost loop (lines 271-283) at timestep \<open>t\<close> and position
  \<open>(x, y, z)\<close> of the held block; the state is the result arrays and the two counters
  \<^verbatim>\<open>localMinimaCount_at_t\<close> and \<^verbatim>\<open>localMaximaCount_at_t\<close>.
\<close>

definition point_step ::
  "(int \<Rightarrow> real) \<Rightarrow> subdomain \<Rightarrow> int \<Rightarrow> int \<times> int \<times> int \<Rightarrow> results \<times> int \<times> int
     \<Rightarrow> results \<times> int \<times> int" where
  "point_step localData g t c st =
     (case c of (x, y, z) \<Rightarrow>
      case st of (r, localMinimaCount_at_t, localMaximaCount_at_t) \<Rightarrow>
        if x \<ge> startX g - tempStartX g \<and> x \<le> endX g - tempStartX g \<and>
           y \<ge> startY g - tempStartY g \<and> y \<le> endY g - tempStartY g \<and>
           z \<ge> startZ g - tempStartZ g \<and> z \<le> endZ g - tempStartZ g
        then
          let width = tempEndX g + 1 - tempStartX g;
              height = tempEndY g + 1 - tempStartY g;
              depth = tempEndZ g + 1 - tempStartZ g;
              idx = threeD_To_oneD x y z width height depth;
              val = localData idx;
              r = (if val < subDomainMinValues r ! nat t
                   then r\<lparr> subDomainMinValues := (subDomainMinValues r)[nat t := val] \<rparr>
                   else r);
              r = (if val > subDomainMaxValues r ! nat t
                   then r\<lparr> subDomainMaxValues := (subDomainMaxValues r)[nat t := val] \<rparr>
                   else r);
              localMinimaCount_at_t =
                (if checkLocalMinima localData x y z width height depth
                 then localMinimaCount_at_t + 1 else localMinimaCount_at_t);
              localMaximaCount_at_t =
                (if checkLocalMaxima localData x y z width height depth
                 then localMaximaCount_at_t + 1 else localMaximaCount_at_t)
          in (r, localMinimaCount_at_t, localMaximaCount_at_t)
        else (r, localMinimaCount_at_t, localMaximaCount_at_t))"

text \<open>The body of the loop over \<open>t\<close> (lines 266-288).\<close>

definition timestep_step :: "(int \<Rightarrow> real) \<Rightarrow> subdomain \<Rightarrow> int \<Rightarrow> results \<Rightarrow> results" where
  "timestep_step localData g t r =
     (case fold (\<lambda>z. fold (\<lambda>y. fold (\<lambda>x. point_step localData g t (x, y, z))
                                    [0 .. tempEndX g - tempStartX g])
                          [0 .. tempEndY g - tempStartY g])
                [0 .. tempEndZ g - tempStartZ g]
                (r, 0, 0)
      of (r, localMinimaCount_at_t, localMaximaCount_at_t) \<Rightarrow>
        r\<lparr> localMinimaCount := (localMinimaCount r)[nat t := localMinimaCount_at_t],
           localMaximaCount := (localMaximaCount r)[nat t := localMaximaCount_at_t] \<rparr>)"

definition scan_subdomain :: "(int \<Rightarrow> real) \<Rightarrow> subdomain \<Rightarrow> int \<Rightarrow> results" where
  "scan_subdomain localData g timeSteps =
     fold (timestep_step localData g) [0 .. timeSteps - 1] (initial_results timeSteps)"

text \<open>A 2 x 1 x 1 domain held by the single rank 0.\<close>

definition pair_subdomain :: subdomain where
  "pair_subdomain = \<lparr> startX = 0, startY = 0, startZ = 0, endX = 1, endY = 0, endZ = 0,
       tempStartX = 0, tempStartY = 0, tempStartZ = 0,
       tempEndX = 1, tempEndY = 0, tempEndZ = 0 \<rparr>"

section \<open>The shadowed extents of 1.c\<close>

lemma is_min_body_Continue: "is_min_body data x y z nx ny nz t nt val d = Continue"
  by (cases d) (simp add: is_min_body_def)

lemma is_max_body_Continue: "is_max_body data x y z nx ny nz t nt val d = Continue"
  by (cases d) (simp add: is_max_body_def)

lemma run_loop_Continue: "(\<And>d. body d = Continue) \<Longrightarrow> run_loop body ds = 1"
  by (induction ds) simp_all

text \<open>
  Claim C9. In \<^verbatim>\<open>is_min\<close> and \<^verbatim>\<open>is_max\<close> of 1.c the neighbour coordinates declared in
  the loop body hide the extent parameters, so the bounds guard compares each coordinate
  with itself and holds in every iteration: each of the six offsets is skipped
  (the body always continues), and both functions return 1 for every array, point,
  extent and timestep.
\<close>

theorem is_min_is_max_always_1:
  "is_min_body data x y z nx ny nz t nt val d = Continue
   \<and> is_max_body data x y z nx ny nz t nt val d = Continue
   \<and> is_min data x y z nx ny nz t nt = 1
   \<and> is_max data x y z nx ny nz t nt = 1"
  by (simp add: is_min_def is_max_def is_min_body_Continue is_max_body_Continue
      run_loop_Continue)


section \<open>The classification rule\<close>

lemma neighbor_loop_char:
  "neighbor_loop halo g val ns (a, b) =
     (a \<and> (\<forall>n\<in>set ns. \<not> out_of_bounds g n \<longrightarrow> val < halo n),
      b \<and> (\<forall>n\<in>set ns. \<not> out_of_bounds g n \<longrightarrow> halo n < val))"
  by (induction ns arbitrary: a b) (auto simp: Let_def)

lemma out_of_bounds_neighbor:
  assumes "owned g (i, j, k)" and "n \<in> set (neighbors i j k)"
  shows "out_of_bounds g n \<longleftrightarrow> \<not> in_domain g n"
  using assms
  by (auto simp: owned_def neighbors_def out_of_bounds_def in_domain_def)

lemma classify_cell_char:
  assumes "owned g (i, j, k)"
  shows "classify_cell halo g (i, j, k) =
     ((\<forall>n\<in>set (neighbors i j k). in_domain g n \<longrightarrow> halo (i, j, k) < halo n),
      (\<forall>n\<in>set (neighbors i j k). in_domain g n \<longrightarrow> halo n < halo (i, j, k)))"
  using out_of_bounds_neighbor [OF assms]
  by (simp add: classify_cell_def neighbor_loop_char)

lemma threeD_To_oneD_shift:
  "threeD_To_oneD x y z w h d - 1 = threeD_To_oneD (x - 1) y z w h d"
  "threeD_To_oneD x y z w h d + 1 = threeD_To_oneD (x + 1) y z w h d"
  "threeD_To_oneD x y z w h d - w = threeD_To_oneD x (y - 1) z w h d"
  "threeD_To_oneD x y z w h d + w = threeD_To_oneD x (y + 1) z w h d"
  "threeD_To_oneD x y z w h d - h * w = threeD_To_oneD x y (z - 1) w h d"
  "threeD_To_oneD x y z w h d + h * w = threeD_To_oneD x y (z + 1) w h d"
  by (simp_all add: threeD_To_oneD_def algebra_simps)

lemma checkLocalMinima_char:
  assumes "in_block w h d (x, y, z)"
  shows "checkLocalMinima data x y z w h d \<longleftrightarrow>
     (\<forall>n\<in>set (neighbors x y z). in_block w h d n \<longrightarrow>
        sample data w h d (x, y, z) \<le> sample data w h d n)"
proof -
  have "checkLocalMinima data x y z w h d \<longleftrightarrow>
      \<not> (x > 0 \<and> data (threeD_To_oneD (x - 1) y z w h d) < data (threeD_To_oneD x y z w h d))
    \<and> \<not> (x < w - 1 \<and> data (threeD_To_oneD (x + 1) y z w h d) < data (threeD_To_oneD x y z w h d))
    \<and> \<not> (y > 0 \<and> data (threeD_To_oneD x (y - 1) z w h d) < data (threeD_To_oneD x y z w h d))
    \<and> \<not> (y < h - 1 \<and> data (threeD_To_oneD x (y + 1) z w h d) < data (threeD_To_oneD x y z w h d))
    \<and> \<not> (z > 0 \<and> data (threeD_To_oneD x y (z - 1) w h d) < data (threeD_To_oneD x y z w h d))
    \<and> \<not> (z < d - 1 \<and> data (threeD_To_oneD x y (z + 1) w h d) < data (threeD_To_oneD x y z w h d))"
    unfolding checkLocalMinima_def Let_def threeD_To_oneD_shift by simp
  also have "\<dots> \<longleftrightarrow> (\<forall>n\<in>set (neighbors x y z). in_block w h d n \<longrightarrow>
        sample data w h d (x, y, z) \<le> sample data w h d n)"
    using assms by (simp add: neighbors_def in_block_def sample_def not_less) linarith
  finally show ?thesis .
qed

lemma checkLocalMaxima_char:
  assumes "in_block w h d (x, y, z)"
  shows "checkLocalMaxima data x y z w h d \<longleftrightarrow>
     (\<forall>n\<in>set (neighbors x y z). in_block w h d n \<longrightarrow>
        sample data w h d n \<le> sample data w h d (x, y, z))"
proof -
  have "checkLocalMaxima data x y z w h d \<longleftrightarrow>
      \<not> (x > 0 \<and> data (threeD_To_oneD (x - 1) y z w h d) > data (threeD_To_oneD x y z w h d))
    \<and> \<not> (x < w - 1 \<and> data (threeD_To_oneD (x + 1) y z w h d) > data (threeD_To_oneD x y z w h d))
    \<and> \<not> (y > 0 \<and> data (threeD_To_oneD x (y - 1) z w h d) > data (threeD_To_oneD x y z w h d))
    \<and> \<not> (y < h - 1 \<and> data (threeD_To_oneD x (y + 1) z w h d) > data (threeD_To_oneD x y z w h d))
    \<and> \<not> (z > 0 \<and> data (threeD_To_oneD x y (z - 1) w h d) > data (threeD_To_oneD x y z w h d))
    \<and> \<not> (z < d - 1 \<and> data (threeD_To_oneD x y (z + 1) w h d) > data (threeD_To_oneD x y z w h d))"
    unfolding checkLocalMaxima_def Let_def threeD_To_oneD_shift by simp
  also have "\<dots> \<longleftrightarrow> (\<forall>n\<in>set (neighbors x y z). in_block w h d n \<longrightarrow>
        sample data w h d n \<le> sample data w h d (x, y, z))"
    using assms by (simp add: neighbors_def in_block_def sample_def not_less) linarith
  finally show ?thesis .
qed


text \<open>
  A 4 x 1 x 1 domain held by a single worker, with the samples 5, 1, 1, 9 along x; ghost
  cells hold \<open>FLT_MAX\<close>, as src.c initialises them.
\<close>

definition line_block :: block where
  "line_block = \<lparr> x_range_start = 0, y_range_start = 0, z_range_start = 0,
                  x_local = 4, y_local = 1, z_local = 1, NX = 4, NY = 1, NZ = 1 \<rparr>"

definition line_halo :: halo where
  "line_halo c =
     (if c = (1, 1, 1) then 5 else if c = (2, 1, 1) then 1 else if c = (3, 1, 1) then 1
      else if c = (4, 1, 1) then 9 else FLT_MAX)"

text \<open>
  Claim C1, as the code has it. In the classification loop of src.c an owned cell is a
  local minimum exactly when its sample is strictly less than the sample of every one of
  its six neighbours whose global position lies inside the domain, and a local maximum
  exactly when it is strictly greater than all of them: a tie disqualifies, and a
  neighbour outside the global domain is skipped. \<^verbatim>\<open>checkLocalMinima\<close> and
  \<^verbatim>\<open>checkLocalMaxima\<close> of pankaj\_code2.c skip the neighbours outside the local block
  in the same way but compare non-strictly: a point is a minimum exactly when no
  neighbour inside the block is strictly smaller, a maximum exactly when none is
  strictly greater, so a tie does not disqualify.
\<close>

theorem classification_rule:
  "(owned g (i, j, k) \<longrightarrow>
      (fst (classify_cell halo g (i, j, k)) \<longleftrightarrow>
         (\<forall>n\<in>set (neighbors i j k). in_domain g n \<longrightarrow> halo (i, j, k) < halo n))
    \<and> (snd (classify_cell halo g (i, j, k)) \<longleftrightarrow>
         (\<forall>n\<in>set (neighbors i j k). in_domain g n \<longrightarrow> halo n < halo (i, j, k))))
   \<and> (in_block w h d (x, y, z) \<longrightarrow>
      (checkLocalMinima data x y z w h d \<longleftrightarrow>
         (\<forall>n\<in>set (neighbors x y z). in_block w h d n \<longrightarrow>
            sample data w h d (x, y, z) \<le> sample data w h d n))
    \<and> (checkLocalMaxima data x y z w h d \<longleftrightarrow>
         (\<forall>n\<in>set (neighbors x y z). in_block w h d n \<longrightarrow>
            sample data w h d n \<le> sample data w h d (x, y, z))))"
proof (intro conjI impI)
  assume o: "owned g (i, j, k)"
  show "fst (classify_cell halo g (i, j, k)) \<longleftrightarrow>
         (\<forall>n\<in>set (neighbors i j k). in_domain g n \<longrightarrow> halo (i, j, k) < halo n)"
    by (simp add: classify_cell_char [OF o])
  show "snd (classify_cell halo g (i, j, k)) \<longleftrightarrow>
         (\<forall>n\<in>set (neighbors i j k). in_domain g n \<longrightarrow> halo n < halo (i, j, k))"
    by (simp add: classify_cell_char [OF o])
next
  assume b: "in_block w h d (x, y, z)"
  show "checkLocalMinima data x y z w h d \<longleftrightarrow>
         (\<forall>n\<in>set (neighbors x y z). in_block w h d n \<longrightarrow>
            sample data w h d (x, y, z) \<le> sample data w h d n)"
    by (rule checkLocalMinima_char [OF b])
  show "checkLocalMaxima data x y z w h d \<longleftrightarrow>
         (\<forall>n\<in>set (neighbors x y z). in_block w h d n \<longrightarrow>
            sample data w h d n \<le> sample data w h d (x, y, z))"
    by (rule checkLocalMaxima_char [OF b])
qed

text \<open>The same four samples as the array that pankaj\_code2.c scans (a 4 x 1 x 1 block).\<close>

definition line_data :: "int \<Rightarrow> real" where
  "line_data i = (if i = 0 then 5 else if i = 1 then 1 else if i = 2 then 1
                  else if i = 3 then 9 else 0)"

theorem classification_rule_witness:
  "owned line_block (2, 1, 1) \<and> in_block 4 1 1 (1, 0, 0)
   \<and> \<not> fst (classify_cell line_halo line_block (2, 1, 1))
   \<and> \<not> snd (classify_cell line_halo line_block (2, 1, 1))
   \<and> checkLocalMinima line_data 1 0 0 4 1 1
   \<and> \<not> checkLocalMaxima line_data 1 0 0 4 1 1"
  using classification_rule [of line_block 2 1 1 line_halo 4 1 1 1 0 0 line_data]
  by (simp add: owned_def line_block_def in_block_def in_domain_def neighbors_def
      line_halo_def sample_def threeD_To_oneD_def line_data_def)

text \<open>
  Claim C1 as stated fails on \<^verbatim>\<open>checkLocalMinima\<close>: the second point of the line has
  the sample 1, its right neighbour is present and holds 1 as well, the point is not
  strictly less than that neighbour, and it is classified as a local minimum.
\<close>

theorem tie_is_minimum_counterexample:
  "in_block 4 1 1 (1, 0, 0) \<and> (2, 0, 0) \<in> set (neighbors 1 0 0) \<and> in_block 4 1 1 (2, 0, 0)
   \<and> \<not> sample line_data 4 1 1 (1, 0, 0) < sample line_data 4 1 1 (2, 0, 0)
   \<and> checkLocalMinima line_data 1 0 0 4 1 1"
  by (simp add: in_block_def neighbors_def sample_def threeD_To_oneD_def line_data_def
      checkLocalMinima_def)


section \<open>Flat fields\<close>

text \<open>The owned block lies inside the global domain, as the ranges of \<^verbatim>\<open>get_range\<close> do.\<close>

definition well_placed :: "block \<Rightarrow> bool" where
  "well_placed g \<longleftrightarrow>
     0 \<le> x_range_start g \<and> x_range_start g + x_local g \<le> NX g \<and>
     0 \<le> y_range_start g \<and> y_range_start g + y_local g \<le> NY g \<and>
     0 \<le> z_range_start g \<and> z_range_start g + z_local g \<le> NZ g"

text \<open>A 1 x 1 x 1 domain held by one worker, and a halo with the same value in every cell.\<close>

definition unit_block :: block where
  "unit_block = \<lparr> x_range_start = 0, y_range_start = 0, z_range_start = 0,
                  x_local = 1, y_local = 1, z_local = 1, NX = 1, NY = 1, NZ = 1 \<rparr>"

definition flat_halo :: "real \<Rightarrow> halo" where
  "flat_halo v c = v"

lemma fold_invariant:
  assumes "\<And>x s. x \<in> set xs \<Longrightarrow> P s \<Longrightarrow> P (f x s)" and "P s"
  shows "P (fold f xs s)"
  using assms by (induction xs arbitrary: s) simp_all

lemma owned_in_domain: "well_placed g \<Longrightarrow> owned g c \<Longrightarrow> in_domain g c"
  by (cases c) (auto simp: well_placed_def owned_def in_domain_def)

lemma owned_has_neighbor:
  assumes "well_placed g" and "owned g (i, j, k)" and "NX g > 1 \<or> NY g > 1 \<or> NZ g > 1"
  shows "\<exists>n\<in>set (neighbors i j k). in_domain g n"
proof -
  from assms(1,2) have d: "in_domain g (i, j, k)" by (rule owned_in_domain)
  from assms(3) consider "NX g > 1" | "NY g > 1" | "NZ g > 1" by blast
  then show ?thesis
  proof cases
    case 1
    with d have "in_domain g (i - 1, j, k) \<or> in_domain g (i + 1, j, k)"
      by (auto simp: in_domain_def)
    then show ?thesis by (auto simp: neighbors_def)
  next
    case 2
    with d have "in_domain g (i, j - 1, k) \<or> in_domain g (i, j + 1, k)"
      by (auto simp: in_domain_def)
    then show ?thesis by (auto simp: neighbors_def)
  next
    case 3
    with d have "in_domain g (i, j, k - 1) \<or> in_domain g (i, j, k + 1)"
      by (auto simp: in_domain_def)
    then show ?thesis by (auto simp: neighbors_def)
  qed
qed

lemma flat_classify_cell:
  assumes wp: "well_placed g" and o: "owned g (i, j, k)"
    and big: "NX g > 1 \<or> NY g > 1 \<or> NZ g > 1"
    and flat: "\<And>c. in_domain g c \<Longrightarrow> halo c = v"
  shows "classify_cell halo g (i, j, k) = (False, False)"
proof -
  from owned_has_neighbor [OF wp o big] obtain n where
    n: "n \<in> set (neighbors i j k)" "in_domain g n" by blast
  have "halo (i, j, k) = v" by (rule flat [OF owned_in_domain [OF wp o]])
  moreover have "halo n = v" by (rule flat [OF n(2)])
  ultimately have "\<not> halo (i, j, k) < halo n" "\<not> halo n < halo (i, j, k)" by simp_all
  with n show ?thesis unfolding classify_cell_char [OF o] by blast
qed

definition uncounted :: "tally \<Rightarrow> bool" where
  "uncounted s \<longleftrightarrow> cnt_min s = 0 \<and> cnt_max s = 0"

lemma flat_cell_step:
  assumes "classify_cell halo g c = (False, False)" and "uncounted s"
  shows "uncounted (cell_step halo g c s)"
  using assms by (simp add: cell_step_def Let_def uncounted_def)

lemma flat_scan_cells:
  assumes wp: "well_placed g" and big: "NX g > 1 \<or> NY g > 1 \<or> NZ g > 1"
    and flat: "\<And>c. in_domain g c \<Longrightarrow> halo c = v"
  shows "uncounted (scan_cells halo g)"
  unfolding scan_cells_def
proof (rule fold_invariant [where P = uncounted])
  show "uncounted \<lparr> cnt_min = 0, cnt_max = 0, lmin = FLT_MAX, lmax = - FLT_MAX \<rparr>"
    by (simp add: uncounted_def)
next
  fix i and s :: tally
  assume i: "i \<in> set [1 .. x_local g]" and s: "uncounted s"
  show "uncounted (fold (\<lambda>j. fold (\<lambda>k. cell_step halo g (i, j, k)) [1 .. z_local g])
                   [1 .. y_local g] s)"
  proof (rule fold_invariant [where P = uncounted, OF _ s])
    fix j and s :: tally
    assume j: "j \<in> set [1 .. y_local g]" and s: "uncounted s"
    show "uncounted (fold (\<lambda>k. cell_step halo g (i, j, k)) [1 .. z_local g] s)"
    proof (rule fold_invariant [where P = uncounted, OF _ s])
      fix k and s :: tally
      assume k: "k \<in> set [1 .. z_local g]" and s: "uncounted s"
      from i j k have "owned g (i, j, k)" by (simp add: owned_def)
      then have "classify_cell halo g (i, j, k) = (False, False)"
        using flat by (intro flat_classify_cell [OF wp _ big]) simp_all
      then show "uncounted (cell_step halo g (i, j, k) s)"
        using s by (rule flat_cell_step)
    qed
  qed
qed

lemma flat_checkLocalMinima: "checkLocalMinima (flat_field v) x y z w h d"
  by (simp add: checkLocalMinima_def flat_field_def)

lemma flat_checkLocalMaxima: "checkLocalMaxima (flat_field v) x y z w h d"
  by (simp add: checkLocalMaxima_def flat_field_def)


text \<open>
  Claim C6, as the code has it. In src.c, whenever every halo cell whose global position
  lies inside the domain holds one and the same value and the domain has more than one
  point, no owned cell is counted: \<^verbatim>\<open>cnt_min = cnt_max = 0\<close>. (In a 1 x 1 x 1 domain
  the single point has no present neighbour and is counted as both.) In pankaj\_code2.c,
  on an array that holds one and the same value everywhere, \<^verbatim>\<open>checkLocalMinima\<close> and
  \<^verbatim>\<open>checkLocalMaxima\<close> hold at every position, so every owned point is counted as
  both.
\<close>

theorem flat_field_counts:
  "(well_placed g \<and> (NX g > 1 \<or> NY g > 1 \<or> NZ g > 1) \<and> (\<forall>c. in_domain g c \<longrightarrow> halo c = v)
      \<longrightarrow> cnt_min (scan_cells halo g) = 0 \<and> cnt_max (scan_cells halo g) = 0)
   \<and> checkLocalMinima (flat_field v) x y z w h d
   \<and> checkLocalMaxima (flat_field v) x y z w h d"
proof (intro conjI impI)
  assume a: "well_placed g \<and> (NX g > 1 \<or> NY g > 1 \<or> NZ g > 1)
      \<and> (\<forall>c. in_domain g c \<longrightarrow> halo c = v)"
  then have wp: "well_placed g" and big: "NX g > 1 \<or> NY g > 1 \<or> NZ g > 1"
    and flat: "\<And>c. in_domain g c \<Longrightarrow> halo c = v" by blast+
  have "uncounted (scan_cells halo g)"
    by (rule flat_scan_cells [OF wp big flat])
  then show "cnt_min (scan_cells halo g) = 0" and "cnt_max (scan_cells halo g) = 0"
    by (simp_all add: uncounted_def)
qed (rule flat_checkLocalMinima flat_checkLocalMaxima)+

theorem flat_field_counts_witness:
  "well_placed line_block \<and> NX line_block > 1
   \<and> cnt_min (scan_cells (flat_halo 5) line_block) = 0
   \<and> cnt_max (scan_cells (flat_halo 5) line_block) = 0"
  using flat_field_counts [of line_block "flat_halo 5" 5]
  by (simp add: well_placed_def line_block_def flat_halo_def)

text \<open>
  Claim C6 as stated fails for two shapes of input: the 1 x 1 x 1 domain in src.c, whose
  single point is counted once as a minimum and once as a maximum, and any flat array in
  pankaj\_code2.c, here a 2 x 1 x 1 domain on one rank with one timestep, where both
  points are counted as both.
\<close>

theorem flat_field_counted_counterexample:
  "cnt_min (scan_cells (flat_halo 5) unit_block) = 1
   \<and> cnt_max (scan_cells (flat_halo 5) unit_block) = 1
   \<and> subdomain_of 0 1 1 1 2 1 1 = Some pair_subdomain
   \<and> localMinimaCount (scan_subdomain (flat_field 5) pair_subdomain 1) = [2]
   \<and> localMaximaCount (scan_subdomain (flat_field 5) pair_subdomain 1) = [2]"
proof -
  have "scan_cells (flat_halo 5) unit_block
      = \<lparr> cnt_min = 1, cnt_max = 1, lmin = 5, lmax = 5 \<rparr>"
    by (simp add: scan_cells_def unit_block_def cell_step_def classify_cell_def neighbors_def
        out_of_bounds_def flat_halo_def FLT_MAX_def)
  moreover have "subdomain_of 0 1 1 1 2 1 1 = Some pair_subdomain"
    by (simp add: subdomain_of_def pair_subdomain_def signed_divide_int_def
        signed_modulo_int_def)
  moreover have "scan_subdomain (flat_field 5) pair_subdomain 1 =
      \<lparr> localMinimaCount = [2], localMaximaCount = [2],
        subDomainMinValues = [5], subDomainMaxValues = [5] \<rparr>"
    by (simp add: scan_subdomain_def timestep_step_def point_step_def pair_subdomain_def
        initial_results_def flat_checkLocalMinima flat_checkLocalMaxima flat_field_def
        DBL_MAX_def Let_def upto_rec1)
  ultimately show ?thesis by simp
qed

section \<open>The scan of pankaj\_code2.c does not depend on the timestep\<close>

text \<open>
  What one position contributes to the running minimum, the running maximum and the two
  counters, and what the whole held block contributes: the loops of \<open>timestep_step\<close>
  with the array cells of index \<open>t\<close> replaced by scalars.
\<close>

definition point_scalar ::
  "(int \<Rightarrow> real) \<Rightarrow> subdomain \<Rightarrow> int \<times> int \<times> int \<Rightarrow> real \<times> real \<times> int \<times> int
     \<Rightarrow> real \<times> real \<times> int \<times> int" where
  "point_scalar localData g c sc =
     (case c of (x, y, z) \<Rightarrow>
      case sc of (mn, mx, a, b) \<Rightarrow>
        if x \<ge> startX g - tempStartX g \<and> x \<le> endX g - tempStartX g \<and>
           y \<ge> startY g - tempStartY g \<and> y \<le> endY g - tempStartY g \<and>
           z \<ge> startZ g - tempStartZ g \<and> z \<le> endZ g - tempStartZ g
        then
          let width = tempEndX g + 1 - tempStartX g;
              height = tempEndY g + 1 - tempStartY g;
              depth = tempEndZ g + 1 - tempStartZ g;
              val = localData (threeD_To_oneD x y z width height depth)
          in (if val < mn then val else mn, if val > mx then val else mx,
              if checkLocalMinima localData x y z width height depth then a + 1 else a,
              if checkLocalMaxima localData x y z width height depth then b + 1 else b)
        else (mn, mx, a, b))"

definition block_scalar ::
  "(int \<Rightarrow> real) \<Rightarrow> subdomain \<Rightarrow> real \<times> real \<times> int \<times> int \<Rightarrow> real \<times> real \<times> int \<times> int" where
  "block_scalar localData g sc =
     fold (\<lambda>z. fold (\<lambda>y. fold (\<lambda>x. point_scalar localData g (x, y, z))
                              [0 .. tempEndX g - tempStartX g])
                    [0 .. tempEndY g - tempStartY g])
          [0 .. tempEndZ g - tempStartZ g] sc"

definition tracks :: "results \<Rightarrow> int \<Rightarrow> results \<times> int \<times> int \<Rightarrow> real \<times> real \<times> int \<times> int \<Rightarrow> bool"
  where
  "tracks r0 t st sc \<longleftrightarrow>
     (case st of (r, a, b) \<Rightarrow> case sc of (mn, mx, a', b') \<Rightarrow>
        a = a' \<and> b = b' \<and>
        subDomainMinValues r = (subDomainMinValues r0)[nat t := mn] \<and>
        subDomainMaxValues r = (subDomainMaxValues r0)[nat t := mx] \<and>
        localMinimaCount r = localMinimaCount r0 \<and>
        localMaximaCount r = localMaximaCount r0)"

lemma fold_simulation:
  assumes "\<And>x s a. x \<in> set xs \<Longrightarrow> R s a \<Longrightarrow> R (f x s) (g x a)" and "R s a"
  shows "R (fold f xs s) (fold g xs a)"
  using assms by (induction xs arbitrary: s a) simp_all

lemma point_step_tracks:
  assumes "nat t < length (subDomainMinValues r0)" "nat t < length (subDomainMaxValues r0)"
    and "tracks r0 t st sc"
  shows "tracks r0 t (point_step localData g t c st) (point_scalar localData g c sc)"
  using assms
  by (cases c; cases st; cases sc)
    (simp add: tracks_def point_step_def point_scalar_def Let_def)

lemma block_tracks:
  assumes l: "nat t < length (subDomainMinValues r0)" "nat t < length (subDomainMaxValues r0)"
    and tr: "tracks r0 t st sc"
  shows "tracks r0 t
     (fold (\<lambda>z. fold (\<lambda>y. fold (\<lambda>x. point_step localData g t (x, y, z))
                                    [0 .. tempEndX g - tempStartX g])
                          [0 .. tempEndY g - tempStartY g])
                [0 .. tempEndZ g - tempStartZ g] st)
     (block_scalar localData g sc)"
  unfolding block_scalar_def
  by (intro fold_simulation [where R = "tracks r0 t"] point_step_tracks l tr)


lemma timestep_step_eq:
  assumes l: "nat t < length (subDomainMinValues r0)" "nat t < length (subDomainMaxValues r0)"
  shows "timestep_step localData g t r0 =
     (case block_scalar localData g
             (subDomainMinValues r0 ! nat t, subDomainMaxValues r0 ! nat t, 0, 0)
      of (mn, mx, a, b) \<Rightarrow>
        \<lparr> localMinimaCount = (localMinimaCount r0)[nat t := a],
          localMaximaCount = (localMaximaCount r0)[nat t := b],
          subDomainMinValues = (subDomainMinValues r0)[nat t := mn],
          subDomainMaxValues = (subDomainMaxValues r0)[nat t := mx] \<rparr>)"
proof -
  have "tracks r0 t (r0, 0, 0) (subDomainMinValues r0 ! nat t, subDomainMaxValues r0 ! nat t, 0, 0)"
    by (simp add: tracks_def)
  from block_tracks [OF l this, of localData g] show ?thesis
    by (auto simp: timestep_step_def tracks_def split: prod.splits)
qed

definition settled :: "(int \<Rightarrow> real) \<Rightarrow> subdomain \<Rightarrow> nat \<Rightarrow> nat set \<Rightarrow> results \<Rightarrow> bool" where
  "settled localData g n S r \<longleftrightarrow>
     length (localMinimaCount r) = n \<and> length (localMaximaCount r) = n \<and>
     length (subDomainMinValues r) = n \<and> length (subDomainMaxValues r) = n \<and>
     (\<forall>i<n. if i \<in> S
        then (subDomainMinValues r ! i, subDomainMaxValues r ! i,
              localMinimaCount r ! i, localMaximaCount r ! i)
             = block_scalar localData g (DBL_MAX, - DBL_MAX, 0, 0)
        else subDomainMinValues r ! i = DBL_MAX \<and> subDomainMaxValues r ! i = - DBL_MAX)"

lemma timestep_settled:
  assumes "settled localData g n S r" and "nat t < n" and "nat t \<notin> S"
  shows "settled localData g n (insert (nat t) S) (timestep_step localData g t r)"
proof -
  from assms have l: "nat t < length (subDomainMinValues r)" "nat t < length (subDomainMaxValues r)"
    and init: "subDomainMinValues r ! nat t = DBL_MAX" "subDomainMaxValues r ! nat t = - DBL_MAX"
    by (auto simp: settled_def)
  obtain mn mx a b where v: "block_scalar localData g (DBL_MAX, - DBL_MAX, 0, 0) = (mn, mx, a, b)"
    by (cases "block_scalar localData g (DBL_MAX, - DBL_MAX, 0, 0)") auto
  show ?thesis
    using assms unfolding timestep_step_eq [OF l] init v
    by (auto simp: settled_def v nth_list_update)
qed

lemma scan_settled:
  assumes "distinct ts" and "\<forall>t\<in>set ts. 0 \<le> t \<and> nat t < n" and "\<forall>t\<in>set ts. nat t \<notin> S"
    and "settled localData g n S r"
  shows "settled localData g n (S \<union> nat ` set ts) (fold (timestep_step localData g) ts r)"
  using assms
proof (induction ts arbitrary: S r)
  case Nil
  then show ?case by simp
next
  case (Cons t ts)
  have 1: "settled localData g n (insert (nat t) S) (timestep_step localData g t r)"
    using Cons.prems by (intro timestep_settled) simp_all
  have 2: "\<forall>u\<in>set ts. nat u \<notin> insert (nat t) S"
    using Cons.prems by (auto simp: nat_eq_iff)
  have "settled localData g n (insert (nat t) S \<union> nat ` set ts)
          (fold (timestep_step localData g) ts (timestep_step localData g t r))"
    using Cons.prems by (intro Cons.IH 1 2) simp_all
  then show ?case by simp
qed

lemma initial_settled: "settled localData g (nat timeSteps) {} (initial_results timeSteps)"
  by (simp add: settled_def initial_results_def)

lemma scan_subdomain_entries:
  assumes "0 \<le> t" "t < timeSteps"
  shows "(subDomainMinValues (scan_subdomain localData g timeSteps) ! nat t,
          subDomainMaxValues (scan_subdomain localData g timeSteps) ! nat t,
          localMinimaCount (scan_subdomain localData g timeSteps) ! nat t,
          localMaximaCount (scan_subdomain localData g timeSteps) ! nat t)
         = block_scalar localData g (DBL_MAX, - DBL_MAX, 0, 0)"
proof -
  have "settled localData g (nat timeSteps) ({} \<union> nat ` set [0 .. timeSteps - 1])
          (scan_subdomain localData g timeSteps)"
    unfolding scan_subdomain_def
    by (intro scan_settled initial_settled) auto
  moreover have "nat t \<in> nat ` set [0 .. timeSteps - 1]" using assms by simp
  moreover have "nat t < nat timeSteps" using assms by simp
  ultimately show ?thesis unfolding settled_def by (metis Un_iff)
qed

text \<open>
  A 2 x 1 x 1 domain with two timesteps, point-major: the first point has the series
  5, 1 and the second the series 7, 9.
\<close>

definition series_data :: "int \<Rightarrow> real" where
  "series_data i = (if i = 0 then 5 else if i = 1 then 1 else if i = 2 then 7
                    else if i = 3 then 9 else 0)"

text \<open>
  Claim C10. In pankaj\_code2.c the results of any two timesteps \<open>t\<close> and \<open>t'\<close> are the
  same, for every array \<open>localData\<close> and every sub-domain: the two counts and the two
  extreme values at \<open>t\<close> equal those at \<open>t'\<close>, because the scan and the two check
  functions read \<open>localData\<close> at a position index without a timestep stride.
\<close>

theorem timestep_independent:
  assumes "0 \<le> t" and "t < timeSteps" and "0 \<le> t'" and "t' < timeSteps"
  shows "localMinimaCount (scan_subdomain localData g timeSteps) ! nat t
           = localMinimaCount (scan_subdomain localData g timeSteps) ! nat t'
       \<and> localMaximaCount (scan_subdomain localData g timeSteps) ! nat t
           = localMaximaCount (scan_subdomain localData g timeSteps) ! nat t'
       \<and> subDomainMinValues (scan_subdomain localData g timeSteps) ! nat t
           = subDomainMinValues (scan_subdomain localData g timeSteps) ! nat t'
       \<and> subDomainMaxValues (scan_subdomain localData g timeSteps) ! nat t
           = subDomainMaxValues (scan_subdomain localData g timeSteps) ! nat t'"
proof -
  obtain mn mx a b where "block_scalar localData g (DBL_MAX, - DBL_MAX, 0, 0) = (mn, mx, a, b)"
    by (cases "block_scalar localData g (DBL_MAX, - DBL_MAX, 0, 0)") auto
  then show ?thesis
    using scan_subdomain_entries [OF assms(1,2), of localData g]
      scan_subdomain_entries [OF assms(3,4), of localData g]
    by simp
qed

theorem timestep_independent_witness:
  "(0::int) \<le> 0 \<and> (0::int) < 2 \<and> (0::int) \<le> 1 \<and> (1::int) < 2
   \<and> subDomainMinValues (scan_subdomain series_data pair_subdomain 2) ! nat 0
       = subDomainMinValues (scan_subdomain series_data pair_subdomain 2) ! nat 1
   \<and> subDomainMaxValues (scan_subdomain series_data pair_subdomain 2) ! nat 0
       = subDomainMaxValues (scan_subdomain series_data pair_subdomain 2) ! nat 1
   \<and> localMinimaCount (scan_subdomain series_data pair_subdomain 2) ! nat 0
       = localMinimaCount (scan_subdomain series_data pair_subdomain 2) ! nat 1
   \<and> localMaximaCount (scan_subdomain series_data pair_subdomain 2) ! nat 0
       = localMaximaCount (scan_subdomain series_data pair_subdomain 2) ! nat 1"
  using timestep_independent [of 0 2 1 series_data pair_subdomain]
  by simp


section \<open>Reduction to the global result\<close>

subsection \<open>The value extremes of src.c\<close>

text \<open>
  In src.c the running extremes are updated for every owned cell, outside the
  classification: after the scan \<^verbatim>\<open>lmin\<close> is at most and \<^verbatim>\<open>lmax\<close> at least the sample
  of every owned cell, and each of them is the sample of an owned cell or still its
  initial value.
\<close>

lemma fold_reaches:
  assumes "x0 \<in> set xs" and "\<And>s. Q (f x0 s)" and "\<And>x s. Q s \<Longrightarrow> Q (f x s)"
  shows "Q (fold f xs s)"
  using assms(1)
proof (induction xs arbitrary: s)
  case Nil
  then show ?case by simp
next
  case (Cons x xs)
  show ?case
  proof (cases "x0 \<in> set xs")
    case True
    then show ?thesis by (simp add: Cons.IH)
  next
    case False
    with Cons.prems have "x = x0" by simp
    then have "Q (f x s)" by (simp add: assms(2))
    then have "Q (fold f xs (f x s))" by (rule fold_invariant [rotated]) (rule assms(3))
    then show ?thesis by simp
  qed
qed

definition bounds :: "real \<Rightarrow> tally \<Rightarrow> bool" where
  "bounds v s \<longleftrightarrow> lmin s \<le> v \<and> v \<le> lmax s"

lemma cell_step_bounds_self: "bounds (halo c) (cell_step halo g c s)"
  by (simp add: bounds_def cell_step_def Let_def split: prod.splits)

lemma cell_step_bounds_keep: "bounds v s \<Longrightarrow> bounds v (cell_step halo g c s)"
  by (simp add: bounds_def cell_step_def Let_def split: prod.splits)

lemma scan_cells_bounds:
  assumes "owned g (i, j, k)"
  shows "lmin (scan_cells halo g) \<le> halo (i, j, k) \<and> halo (i, j, k) \<le> lmax (scan_cells halo g)"
proof -
  from assms have i: "i \<in> set [1 .. x_local g]" and j: "j \<in> set [1 .. y_local g]"
    and k: "k \<in> set [1 .. z_local g]" by (simp_all add: owned_def)
  have "bounds (halo (i, j, k)) (scan_cells halo g)"
    unfolding scan_cells_def
  proof (rule fold_reaches [where Q = "bounds (halo (i, j, k))", OF i])
    fix s :: tally
    show "bounds (halo (i, j, k))
        (fold (\<lambda>j. fold (\<lambda>k. cell_step halo g (i, j, k)) [1 .. z_local g]) [1 .. y_local g] s)"
    proof (rule fold_reaches [where Q = "bounds (halo (i, j, k))", OF j])
      fix s :: tally
      show "bounds (halo (i, j, k)) (fold (\<lambda>k. cell_step halo g (i, j, k)) [1 .. z_local g] s)"
        by (rule fold_reaches [where Q = "bounds (halo (i, j, k))", OF k])
          (rule cell_step_bounds_self cell_step_bounds_keep)+
    next
      fix j' and s :: tally
      assume "bounds (halo (i, j, k)) s"
      then show "bounds (halo (i, j, k))
          (fold (\<lambda>k. cell_step halo g (i, j', k)) [1 .. z_local g] s)"
        by (rule fold_invariant [rotated]) (rule cell_step_bounds_keep)
    qed
  next
    fix i' and s :: tally
    assume "bounds (halo (i, j, k)) s"
    then show "bounds (halo (i, j, k))
        (fold (\<lambda>j. fold (\<lambda>k. cell_step halo g (i', j, k)) [1 .. z_local g]) [1 .. y_local g] s)"
      by (intro fold_invariant [where P = "bounds (halo (i, j, k))"] cell_step_bounds_keep)
  qed
  then show ?thesis by (simp add: bounds_def)
qed

definition attained :: "halo \<Rightarrow> block \<Rightarrow> tally \<Rightarrow> bool" where
  "attained halo g s \<longleftrightarrow>
     (lmin s = FLT_MAX \<or> (\<exists>c. owned g c \<and> lmin s = halo c)) \<and>
     (lmax s = - FLT_MAX \<or> (\<exists>c. owned g c \<and> lmax s = halo c))"

lemma cell_step_attained:
  assumes "owned g c" and "attained halo g s"
  shows "attained halo g (cell_step halo g c s)"
proof -
  have "lmin (cell_step halo g c s) = halo c \<or> lmin (cell_step halo g c s) = lmin s"
    and "lmax (cell_step halo g c s) = halo c \<or> lmax (cell_step halo g c s) = lmax s"
    by (simp_all add: cell_step_def Let_def split: prod.splits)
  with assms show ?thesis unfolding attained_def by metis
qed

lemma scan_cells_attained: "attained halo g (scan_cells halo g)"
  unfolding scan_cells_def
proof (intro fold_invariant [where P = "attained halo g"])
  show "attained halo g \<lparr> cnt_min = 0, cnt_max = 0, lmin = FLT_MAX, lmax = - FLT_MAX \<rparr>"
    by (simp add: attained_def)
next
  fix i j k and s :: tally
  assume "k \<in> set [1 .. z_local g]" "j \<in> set [1 .. y_local g]" "i \<in> set [1 .. x_local g]"
    and s: "attained halo g s"
  then have "owned g (i, j, k)" by (simp add: owned_def)
  then show "attained halo g (cell_step halo g (i, j, k) s)" using s by (rule cell_step_attained)
qed

subsection \<open>The compute loop of pankaj\_code.c\<close>

text \<open>The result arrays are those of pankaj\_code2.c (lines 176-184 here).\<close>

definition neighborOffsets :: "(int \<times> int \<times> int) list" where
  "neighborOffsets = [(-1, 0, 0), (1, 0, 0), (0, -1, 0), (0, 1, 0), (0, 0, -1), (0, 0, 1)]"

text \<open>The body of the loop over the six offsets (lines 227-242).\<close>

definition offset_step ::
  "(int \<Rightarrow> real) \<Rightarrow> int \<Rightarrow> int \<Rightarrow> int \<Rightarrow> int \<times> int \<times> int \<Rightarrow> int \<Rightarrow> real
     \<Rightarrow> int \<times> int \<times> int \<Rightarrow> bool \<times> bool \<Rightarrow> bool \<times> bool" where
  "offset_step localData subDomainSizeX subDomainSizeY timeSteps c t val off flags =
     (case c of (x, y, z) \<Rightarrow> case off of (o0, o1, o2) \<Rightarrow> case flags of (isMin, isMax) \<Rightarrow>
        let nx = x + o0;
            ny = y + o1;
            nz = z + o2;
            neighborIdx =
              (nz * subDomainSizeX * subDomainSizeY + ny * subDomainSizeX + nx) * timeSteps + t;
            neighborValue = localData neighborIdx;
            isMin = (if val \<ge> neighborValue then False else isMin);
            isMax = (if val \<le> neighborValue then False else isMax)
        in (isMin, isMax))"

text \<open>The body of the loop over \<open>t\<close> (lines 198-251) for the local position \<open>(x, y, z)\<close>.\<close>

definition series_step ::
  "(int \<Rightarrow> real) \<Rightarrow> int \<Rightarrow> int \<Rightarrow> int \<Rightarrow> int \<Rightarrow> int \<times> int \<times> int \<Rightarrow> int \<Rightarrow> results \<Rightarrow> results"
  where
  "series_step localData subDomainSizeX subDomainSizeY subDomainSizeZ timeSteps c t r =
     (case c of (x, y, z) \<Rightarrow>
        let localIdx = (z * subDomainSizeY + y) * subDomainSizeX + x;
            val = localData (localIdx + t);
            r = (if val < subDomainMinValues r ! nat t
                 then r\<lparr> subDomainMinValues := (subDomainMinValues r)[nat t := val] \<rparr>
                 else r);
            r = (if val > subDomainMaxValues r ! nat t
                 then r\<lparr> subDomainMaxValues := (subDomainMaxValues r)[nat t := val] \<rparr>
                 else r)
        in if x > 0 \<and> x < subDomainSizeX - 1 \<and> y > 0 \<and> y < subDomainSizeY - 1 \<and>
              z > 0 \<and> z < subDomainSizeZ - 1
           then
             case fold (offset_step localData subDomainSizeX subDomainSizeY timeSteps c t val)
                    neighborOffsets (True, True)
             of (isMin, isMax) \<Rightarrow>
               let r = (if isMin
                        then r\<lparr> localMinimaCount :=
                                 (localMinimaCount r)[nat t := localMinimaCount r ! nat t + 1] \<rparr>
                        else r);
                   r = (if isMax
                        then r\<lparr> localMaximaCount :=
                                 (localMaximaCount r)[nat t := localMaximaCount r ! nat t + 1] \<rparr>
                        else r)
               in r
           else r)"

definition process_local :: "(int \<Rightarrow> real) \<Rightarrow> int \<Rightarrow> int \<Rightarrow> int \<Rightarrow> int \<Rightarrow> results" where
  "process_local localData subDomainSizeX subDomainSizeY subDomainSizeZ timeSteps =
     fold (\<lambda>z. fold (\<lambda>y. fold (\<lambda>x. fold
              (series_step localData subDomainSizeX subDomainSizeY subDomainSizeZ timeSteps
                 (x, y, z))
              [0 .. timeSteps - 1])
            [0 .. subDomainSizeX - 1])
          [0 .. subDomainSizeY - 1])
        [0 .. subDomainSizeZ - 1]
        (initial_results timeSteps)"

text \<open>
  The root's copy of its own block (lines 119-129): \<^verbatim>\<open>localData[idx++] = globalData[globalIdx + t]\<close>.
  The state is the content of \<^verbatim>\<open>localData\<close> and \<^verbatim>\<open>idx\<close>.
\<close>

definition copy_series ::
  "(int \<Rightarrow> real) \<Rightarrow> int \<Rightarrow> int \<Rightarrow> int \<Rightarrow> int \<times> int \<times> int \<Rightarrow> (int \<Rightarrow> real) \<times> int
     \<Rightarrow> (int \<Rightarrow> real) \<times> int" where
  "copy_series globalData nX nY timeSteps c st =
     (case c of (x, y, z) \<Rightarrow>
        let globalIdx = (z * nX * nY + y * nX + x) * timeSteps
        in fold (\<lambda>t (localData, idx). (localData(idx := globalData (globalIdx + t)), idx + 1))
             [0 .. timeSteps - 1] st)"

definition root_block ::
  "(int \<Rightarrow> real) \<Rightarrow> int \<Rightarrow> int \<Rightarrow> int \<Rightarrow> int \<Rightarrow> int \<Rightarrow> int \<Rightarrow> int \<Rightarrow> int \<Rightarrow> int
     \<Rightarrow> (int \<Rightarrow> real) \<Rightarrow> int \<Rightarrow> real" where
  "root_block globalData nX nY timeSteps startX' startY' startZ'
       subDomainSizeX subDomainSizeY subDomainSizeZ localData =
     fst (fold (\<lambda>z. fold (\<lambda>y. fold (\<lambda>x. copy_series globalData nX nY timeSteps (x, y, z))
                                   [startX' .. startX' + subDomainSizeX - 1])
                         [startY' .. startY' + subDomainSizeY - 1])
               [startZ' .. startZ' + subDomainSizeZ - 1]
               (localData, 0))"

text \<open>
  \<^verbatim>\<open>MPI_Reduce\<close> to rank 0 with an operation \<open>f\<close> (\<^verbatim>\<open>MPI_SUM\<close>, \<^verbatim>\<open>MPI_MIN\<close>,
  \<^verbatim>\<open>MPI_MAX\<close>), after the MPI standard: the send buffer of rank 0 combined element by
  element with the send buffers of the other ranks.
\<close>

definition MPI_Reduce :: "('a \<Rightarrow> 'a \<Rightarrow> 'a) \<Rightarrow> 'a list \<Rightarrow> 'a list list \<Rightarrow> 'a list" where
  "MPI_Reduce f sendbuf0 sendbufs = foldl (\<lambda>acc b. map2 f acc b) sendbuf0 sendbufs"

record GlobalResult =
  globalMinimaCount :: "int list"
  globalMaximaCount :: "int list"
  globalMinValues :: "real list"
  globalMaxValues :: "real list"

text \<open>The four reductions (lines 271-276 of pankaj\_code.c) over rank 0 and the other ranks.\<close>

definition reduce_results :: "results \<Rightarrow> results list \<Rightarrow> GlobalResult" where
  "reduce_results r0 rs =
     \<lparr> globalMinimaCount = MPI_Reduce (+) (localMinimaCount r0) (map localMinimaCount rs),
       globalMaximaCount = MPI_Reduce (+) (localMaximaCount r0) (map localMaximaCount rs),
       globalMinValues = MPI_Reduce min (subDomainMinValues r0) (map subDomainMinValues rs),
       globalMaxValues = MPI_Reduce max (subDomainMaxValues r0) (map subDomainMaxValues rs) \<rparr>"

text \<open>
  A whole run of pankaj\_code.c on a single rank (\<^verbatim>\<open>pX = pY = pZ = 1\<close>): the sub-domain
  is the domain, nothing is sent, and the reductions return rank 0's own arrays.
\<close>

definition single_rank_run :: "(int \<Rightarrow> real) \<Rightarrow> int \<Rightarrow> int \<Rightarrow> int \<Rightarrow> int \<Rightarrow> (int \<Rightarrow> real) \<Rightarrow> GlobalResult"
  where
  "single_rank_run globalData nX nY nZ timeSteps mem =
     (let subDomainSizeX = nX sdiv 1;
          subDomainSizeY = nY sdiv 1;
          subDomainSizeZ = nZ sdiv 1;
          localData = root_block globalData nX nY timeSteps 0 0 0
                        subDomainSizeX subDomainSizeY subDomainSizeZ mem
      in reduce_results
           (process_local localData subDomainSizeX subDomainSizeY subDomainSizeZ timeSteps) [])"

lemma DBL_MAX_large: "1000 < DBL_MAX"
  by (simp add: DBL_MAX_def)

lemma below_DBL_MAX: "x \<le> 1000 \<Longrightarrow> x < DBL_MAX"
  using DBL_MAX_large by simp

lemma above_minus_DBL_MAX: "- 1000 \<le> x \<Longrightarrow> - DBL_MAX < x"
  using DBL_MAX_large by simp

lemma replicate_2: "replicate 2 x = [x, x]"
  by (simp add: numeral_2_eq_2)

lemma root_block_series:
  "root_block series_data 2 1 2 0 0 0 2 1 1 mem = mem(0 := 5, 1 := 1, 2 := 7, 3 := 9)"
  by (simp add: root_block_def copy_series_def upto_rec1 series_data_def)

text \<open>
  Claim C5 at a failing input of pankaj\_code.c: one rank, a 2 x 1 x 1 domain, two
  timesteps, the first point with the series 5, 1 and the second with 7, 9. The compute
  loop reads \<^verbatim>\<open>localData[localIdx + t]\<close>, without the stride \<^verbatim>\<open>timeSteps\<close> that the
  layout and its own \<^verbatim>\<open>neighborIdx\<close> use, so the second point contributes the samples
  1 and 7 in place of 7 and 9: the run reports the extremes (1, 5) at \<open>t = 0\<close> and
  (1, 7) at \<open>t = 1\<close>, where the field has (5, 7) and (1, 9). The content \<open>mem\<close> of the
  freshly allocated \<^verbatim>\<open>localData\<close> does not matter.
\<close>

theorem pankaj_code_extremes_miss_stride:
  "single_rank_run series_data 2 1 1 2 mem =
     \<lparr> globalMinimaCount = [0, 0], globalMaximaCount = [0, 0],
       globalMinValues = [1, 1], globalMaxValues = [5, 7] \<rparr>
   \<and> min (series_data (0 * 2 + 0)) (series_data (1 * 2 + 0)) = 5
   \<and> max (series_data (0 * 2 + 0)) (series_data (1 * 2 + 0)) = 7
   \<and> min (series_data (0 * 2 + 1)) (series_data (1 * 2 + 1)) = 1
   \<and> max (series_data (0 * 2 + 1)) (series_data (1 * 2 + 1)) = 9"
proof -
  have "single_rank_run series_data 2 1 1 2 mem =
     \<lparr> globalMinimaCount = [0, 0], globalMaximaCount = [0, 0],
       globalMinValues = [1, 1], globalMaxValues = [5, 7] \<rparr>"
    by (simp add: single_rank_run_def root_block_series process_local_def series_step_def
        initial_results_def reduce_results_def MPI_Reduce_def upto_rec1 below_DBL_MAX
        above_minus_DBL_MAX replicate_2 Let_def)
  then show ?thesis by (simp add: series_data_def)
qed


section \<open>Timing\<close>

text \<open>
  The three intervals a rank of 1.c measures (lines 328-330): \<^verbatim>\<open>read_time\<close>,
  \<^verbatim>\<open>compute_time\<close> and \<^verbatim>\<open>total_time\<close>, taken as measured.
\<close>

record Timing =
  read_time :: real
  compute_time :: real
  total_time :: real

text \<open>
  The three reductions with \<^verbatim>\<open>MPI_MAX\<close> and count 1 (lines 334-336) and the three
  figures that rank 0 writes (line 361).
\<close>

definition report_times :: "Timing \<Rightarrow> Timing list \<Rightarrow> real \<times> real \<times> real" where
  "report_times w0 ws =
     (let max_read_time = MPI_Reduce max [read_time w0] (map (\<lambda>w. [read_time w]) ws) ! 0;
          max_compute_time =
            MPI_Reduce max [compute_time w0] (map (\<lambda>w. [compute_time w]) ws) ! 0;
          max_total_time = MPI_Reduce max [total_time w0] (map (\<lambda>w. [total_time w]) ws) ! 0
      in (max_read_time, max_compute_time, max_total_time))"

text \<open>
  src.c measures one interval per rank, \<^verbatim>\<open>main_time\<close> (line 298), and reduces nothing:
  rank 0 writes \<^verbatim>\<open>0.0, main_time, main_time\<close> with its own \<^verbatim>\<open>main_time\<close> (line 326),
  whatever the other ranks measured.
\<close>

definition report_main_time :: "real \<Rightarrow> real list \<Rightarrow> real \<times> real \<times> real" where
  "report_main_time main_time others = (0, main_time, main_time)"

lemma MPI_Reduce_single:
  "MPI_Reduce f [a] (map (\<lambda>w. [h w]) ws) = [foldl f a (map h ws)]"
  unfolding MPI_Reduce_def by (induction ws arbitrary: a) simp_all

lemma foldl_max_Max: "foldl max (a::real) xs = Max (set (a # xs))"
proof (induction xs arbitrary: a)
  case Nil
  then show ?case by simp
next
  case (Cons x xs)
  have "foldl max a (x # xs) = Max (set (max a x # xs))" by (simp add: Cons.IH)
  also have "\<dots> = Max (set (a # x # xs))"
    by (cases xs) (simp_all add: max.assoc)
  finally show ?case .
qed

lemma report_times_Max:
  "report_times w0 ws =
     (Max (read_time ` set (w0 # ws)), Max (compute_time ` set (w0 # ws)),
      Max (total_time ` set (w0 # ws)))"
  by (simp add: report_times_def MPI_Reduce_single foldl_max_Max)

text \<open>
  Claim C7, as the code has it. In 1.c each of the three figures written to the output is
  the maximum over all ranks of that rank's measured interval, so it is at least every
  rank's own measurement. src.c has no such reduction: it writes 0.0 and, twice, the
  \<^verbatim>\<open>main_time\<close> of rank 0.
\<close>

theorem reported_times:
  "(\<forall>w\<in>set (w0 # ws).
       read_time w \<le> fst (report_times w0 ws)
     \<and> compute_time w \<le> fst (snd (report_times w0 ws))
     \<and> total_time w \<le> snd (snd (report_times w0 ws)))
   \<and> report_times w0 ws =
       (Max (read_time ` set (w0 # ws)), Max (compute_time ` set (w0 # ws)),
        Max (total_time ` set (w0 # ws)))
   \<and> report_main_time main_time others = (0, main_time, main_time)"
  by (simp add: report_times_Max report_main_time_def)

theorem reported_times_witness:
  "read_time \<lparr> read_time = 4, compute_time = 1, total_time = 5 \<rparr>
     \<le> fst (report_times \<lparr> read_time = 1, compute_time = 2, total_time = 3 \<rparr>
               [\<lparr> read_time = 4, compute_time = 1, total_time = 5 \<rparr>])
   \<and> report_times \<lparr> read_time = 1, compute_time = 2, total_time = 3 \<rparr>
               [\<lparr> read_time = 4, compute_time = 1, total_time = 5 \<rparr>] = (4, 2, 5)"
  using reported_times [of "\<lparr> read_time = 1, compute_time = 2, total_time = 3 \<rparr>"
      "[\<lparr> read_time = 4, compute_time = 1, total_time = 5 \<rparr>]"]
  by simp

text \<open>
  Claim C7 as stated fails on src.c: with two ranks that measure 1 (rank 0) and 2
  (rank 1), the figures written are 0, 1 and 1, below the measurement of rank 1.
\<close>

theorem rank0_time_counterexample:
  "report_main_time 1 [2] = (0, 1, 1) \<and> \<not> (2 \<le> snd (snd (report_main_time 1 [2])))"
  by (simp add: report_main_time_def)


section \<open>Configuration checks\<close>

text \<open>
  What a rank of src.c has done when it leaves \<^verbatim>\<open>main\<close> early: its exit status and what
  it wrote to \<^verbatim>\<open>stderr\<close>. \<open>Proceed\<close>: the rank passed both checks (lines 32-52) and goes
  on to build the Cartesian communicator, compute its ranges and take part in the
  distribution; there is no further check of the arguments.
\<close>

datatype report = Usage | Grid_Mismatch

datatype outcome = Exit int "report list" | Proceed

definition startup ::
  "int \<Rightarrow> int \<Rightarrow> int \<Rightarrow> int \<Rightarrow> int \<Rightarrow> int \<Rightarrow> int \<Rightarrow> int \<Rightarrow> int \<Rightarrow> int \<Rightarrow> outcome" where
  "startup rank size' argc PX PY PZ NX' NY' NZ' NC =
     (if argc \<noteq> 10 then Exit 1 (if rank = 0 then [Usage] else [])
      else if PX * PY * PZ \<noteq> size' then Exit 1 (if rank = 0 then [Grid_Mismatch] else [])
      else Proceed)"

lemma get_range_empty:
  assumes "0 < tot" "0 \<le> sz" "sz < tot" "sz \<le> rank"
  shows "get_range rank tot sz =
           Some \<lparr> range_start = sz, range_end = sz - 1, range_size = 0 \<rparr>"
proof -
  from assms have "start_of rank tot sz = sz" "size_of rank tot sz = 0"
    by (simp_all add: start_of_def size_of_def)
  with get_range_closed [of tot sz rank] assms show ?thesis by simp
qed

text \<open>
  Claim C8, as the code has it. With the ten arguments present, a run of src.c whose
  process-grid product differs from the number of ranks is stopped before any data
  movement: every rank leaves with status 1 and rank 0 alone reports the mismatch. That
  is the only check: with a matching product every rank proceeds, whatever the extents
  are. \<^verbatim>\<open>get_range\<close> signals nothing either: it returns a range for every non-zero
  number of workers, and for an extent below the number of workers it returns the empty
  range (\<open>size = 0\<close>, \<open>end = start - 1\<close>) to every worker from \<open>sz\<close> on.
\<close>

theorem startup_checks:
  "(argc = 10 \<longrightarrow>
      startup rank size' argc PX PY PZ NX' NY' NZ' NC =
        (if PX * PY * PZ \<noteq> size' then Exit 1 (if rank = 0 then [Grid_Mismatch] else [])
         else Proceed))
   \<and> (tot \<noteq> 0 \<longrightarrow> get_range i tot sz \<noteq> None)
   \<and> (0 < tot \<and> 0 \<le> sz \<and> sz < tot \<and> sz \<le> i \<longrightarrow>
        get_range i tot sz = Some \<lparr> range_start = sz, range_end = sz - 1, range_size = 0 \<rparr>)"
  by (auto simp: startup_def get_range_empty) (simp add: get_range_def Let_def)

theorem startup_checks_witness:
  "startup 0 3 10 2 1 1 4 4 4 1 = Exit 1 [Grid_Mismatch]
   \<and> startup 1 3 10 2 1 1 4 4 4 1 = Exit 1 []
   \<and> get_range 1 2 1 \<noteq> None
   \<and> get_range 1 2 1 = Some \<lparr> range_start = 1, range_end = 0, range_size = 0 \<rparr>"
  using startup_checks [of 10 0 3 2 1 1 4 4 4 1 2 1 1]
    startup_checks [of 10 1 3 2 1 1 4 4 4 1 2 1 1]
  by simp

text \<open>
  Claim C8 as stated fails for the extents: with two ranks, \<^verbatim>\<open>PX = 2\<close> and
  \<^verbatim>\<open>NX = 1 < PX\<close>, both ranks pass the checks and rank 1 gets an empty range; on a
  single rank the extents 0 and -3 pass as well.
\<close>

theorem unchecked_extent_counterexample:
  "(1::int) < 2
   \<and> startup 0 2 10 2 1 1 1 1 1 1 = Proceed
   \<and> startup 1 2 10 2 1 1 1 1 1 1 = Proceed
   \<and> get_range 1 2 1 = Some \<lparr> range_start = 1, range_end = 0, range_size = 0 \<rparr>
   \<and> startup 0 1 10 1 1 1 0 (- 3) 1 1 = Proceed"
proof -
  have "get_range 1 2 1 = Some \<lparr> range_start = 1, range_end = 0, range_size = 0 \<rparr>"
    unfolding get_range_def Let_def
    by (simp add: signed_divide_int_def signed_modulo_int_def)
      ((subst get_range_loop.simps, simp)+)
  then show ?thesis by (simp add: startup_def)
qed


section \<open>Distribution and ghost cells in 1.c\<close>

text \<open>
  The block of a rank (lines 134-154, and again lines 201-215 for the receiver of a
  send): its first global index and its extent on each axis. A zero \<^verbatim>\<open>px\<close>, \<^verbatim>\<open>py\<close>
  or \<^verbatim>\<open>pz\<close> makes a division trap.
\<close>

record box =
  start_x :: int
  start_y :: int
  start_z :: int
  local_nx :: int
  local_ny :: int
  local_nz :: int

definition box_of :: "int \<Rightarrow> int \<Rightarrow> int \<Rightarrow> int \<Rightarrow> int \<Rightarrow> int \<Rightarrow> int \<Rightarrow> box option" where
  "box_of rank px py pz nx ny nz =
     (if px = 0 \<or> py = 0 \<or> pz = 0 then None
      else
        let local_nx = nx sdiv px;
            local_ny = ny sdiv py;
            local_nz = nz sdiv pz;
            px_id = rank smod px;
            py_id = (rank sdiv px) smod py;
            pz_id = rank sdiv (px * py);
            start_x = px_id * local_nx;
            start_y = py_id * local_ny;
            start_z = pz_id * local_nz;
            end_x = (if px_id + 1 = px then nx else start_x + local_nx);
            end_y = (if py_id + 1 = py then ny else start_y + local_ny);
            end_z = (if pz_id + 1 = pz then nz else start_z + local_nz);
            local_nx = end_x - start_x;
            local_ny = end_y - start_y;
            local_nz = end_z - start_z
        in Some \<lparr> start_x = start_x, start_y = start_y, start_z = start_z,
                  local_nx = local_nx, local_ny = local_ny, local_nz = local_nz \<rparr>)"

text \<open>
  A cell of allocated memory holds a sample or, before anything has been written to it,
  nothing definite (\<open>None\<close>). \<^verbatim>\<open>local_data\<close> has \<^verbatim>\<open>ghost_size * nt\<close> cells, all set to
  \<^verbatim>\<open>DBL_MAX\<close> first (lines 169-171).
\<close>

type_synonym cells = "int \<Rightarrow> real option"

definition ghost_size :: "box \<Rightarrow> int" where
  "ghost_size b = (local_nx b + 2) * (local_ny b + 2) * (local_nz b + 2)"

definition fill_DBL_MAX :: "int \<Rightarrow> cells \<Rightarrow> cells" where
  "fill_DBL_MAX n local_data = fold (\<lambda>i m. m(i := Some DBL_MAX)) [0 .. n - 1] local_data"

text \<open>Rank 0 copies its own block out of \<^verbatim>\<open>full_data\<close> (lines 186-197).\<close>

definition copy_own :: "(int \<Rightarrow> real) \<Rightarrow> int \<Rightarrow> int \<Rightarrow> int \<Rightarrow> box \<Rightarrow> cells \<Rightarrow> cells" where
  "copy_own full_data nx ny nt b local_data =
     fold (\<lambda>z. fold (\<lambda>y. fold (\<lambda>x m.
              let src_idx = idx3d (start_x b + x) (start_y b + y) (start_z b + z) nx ny;
                  dst_idx = idx3d (x + 1) (y + 1) (z + 1) (local_nx b + 2) (local_ny b + 2)
              in fold (\<lambda>t m. m(dst_idx * nt + t := Some (full_data (src_idx * nt + t))))
                   [0 .. nt - 1] m)
            [0 .. local_nx b - 1])
          [0 .. local_ny b - 1])
        [0 .. local_nz b - 1] local_data"

text \<open>Another rank copies what it received (lines 246-257).\<close>

definition copy_received :: "cells \<Rightarrow> int \<Rightarrow> box \<Rightarrow> cells \<Rightarrow> cells" where
  "copy_received recv_buf nt b local_data =
     fold (\<lambda>z. fold (\<lambda>y. fold (\<lambda>x m.
              let src_idx = (z * local_ny b + y) * local_nx b + x;
                  dst_idx = idx3d (x + 1) (y + 1) (z + 1) (local_nx b + 2) (local_ny b + 2)
              in fold (\<lambda>t m. m(dst_idx * nt + t := recv_buf (src_idx * nt + t)))
                   [0 .. nt - 1] m)
            [0 .. local_nx b - 1])
          [0 .. local_ny b - 1])
        [0 .. local_nz b - 1] local_data"

text \<open>
  \<^verbatim>\<open>local_data\<close> when the compute phase starts: between the distribution and the
  compute phase 1.c has two comment lines (262-263) and no exchange of ghost cells.
  \<open>mem\<close> is the content of the block that \<^verbatim>\<open>malloc\<close> returned.
\<close>

definition local_data_root :: "(int \<Rightarrow> real) \<Rightarrow> int \<Rightarrow> int \<Rightarrow> int \<Rightarrow> box \<Rightarrow> cells \<Rightarrow> cells" where
  "local_data_root full_data nx ny nt b mem =
     copy_own full_data nx ny nt b (fill_DBL_MAX (ghost_size b * nt) mem)"

definition local_data_other :: "cells \<Rightarrow> int \<Rightarrow> box \<Rightarrow> cells \<Rightarrow> cells" where
  "local_data_other recv_buf nt b mem =
     copy_received recv_buf nt b (fill_DBL_MAX (ghost_size b * nt) mem)"

text \<open>
  A message that rank 0 sends: its destination and the \<^verbatim>\<open>count\<close> cells of the send
  buffer. Lines 217-233: for every point of the receiver's block a new buffer is
  allocated, the series of that one point is written into it, and the whole buffer is
  sent.
\<close>

record message =
  dest :: int
  payload :: "real option list"

definition send_block :: "(int \<Rightarrow> real) \<Rightarrow> int \<Rightarrow> int \<Rightarrow> int \<Rightarrow> int \<Rightarrow> box \<Rightarrow> message list \<Rightarrow> message list"
  where
  "send_block full_data nx ny nt r rb msgs =
     fold (\<lambda>z. fold (\<lambda>y. fold (\<lambda>x msgs.
              let src_idx = idx3d (start_x rb + x) (start_y rb + y) (start_z rb + z) nx ny;
                  buf_idx = (z * local_ny rb + y) * local_nx rb + x;
                  send_buf = fold (\<lambda>t m. m(buf_idx * nt + t := Some (full_data (src_idx * nt + t))))
                               [0 .. nt - 1] (\<lambda>i. None);
                  count = local_nx rb * local_ny rb * local_nz rb * nt
              in msgs @ [\<lparr> dest = r, payload = map send_buf [0 .. count - 1] \<rparr>])
            [0 .. local_nx rb - 1])
          [0 .. local_ny rb - 1])
        [0 .. local_nz rb - 1] msgs"

text \<open>The loop over the receivers \<^verbatim>\<open>r = 1 .. size - 1\<close> (line 200).\<close>

definition send_all ::
  "(int \<Rightarrow> real) \<Rightarrow> int \<Rightarrow> int \<Rightarrow> int \<Rightarrow> int \<Rightarrow> int \<Rightarrow> int \<Rightarrow> int \<Rightarrow> int \<Rightarrow> message list option"
  where
  "send_all full_data px py pz nx ny nz nt size' =
     fold (\<lambda>r acc. case acc of None \<Rightarrow> None
                   | Some msgs \<Rightarrow>
                       (case box_of r px py pz nx ny nz of None \<Rightarrow> None
                        | Some rb \<Rightarrow> Some (send_block full_data nx ny nt r rb msgs)))
          [1 .. size' - 1] (Some [])"

text \<open>
  A rank other than 0 posts one \<^verbatim>\<open>MPI_Recv\<close> (line 243): it takes the first message
  that rank 0 sent to it. \<open>recv_cells\<close> is the receive buffer after that.
\<close>

definition first_message :: "message list \<Rightarrow> int \<Rightarrow> message option" where
  "first_message msgs r = (case filter (\<lambda>m. dest m = r) msgs of [] \<Rightarrow> None | m # ms \<Rightarrow> Some m)"

definition recv_cells :: "message \<Rightarrow> cells" where
  "recv_cells m i = (if 0 \<le> i \<and> i < int (length (payload m)) then payload m ! nat i else None)"

definition two_data :: "int \<Rightarrow> real" where
  "two_data i = (if i = 0 then 3 else if i = 1 then 4 else 0)"


lemma lin_bound:
  fixes q :: int
  assumes "0 \<le> q" "q < Q" "0 \<le> r" "r < n"
  shows "0 \<le> q * n + r \<and> q * n + r < Q * n"
proof -
  from assms have n: "0 < n" by simp
  have "q * n + r < (q + 1) * n" using assms by (simp add: algebra_simps)
  also have "\<dots> \<le> Q * n" using assms n by (intro mult_right_mono) simp_all
  finally have "q * n + r < Q * n" .
  moreover have "0 \<le> q * n" using assms n by simp
  ultimately show ?thesis using assms by simp
qed

lemma lin_inj:
  fixes q :: int
  assumes "0 \<le> r" "r < n" "0 \<le> r'" "r' < n" and eq: "q * n + r = q' * n + r'"
  shows "q = q' \<and> r = r'"
proof -
  have "(q * n + r) div n = q" using assms(1,2) by (simp add: div_pos_pos_trivial)
  moreover have "(q' * n + r') div n = q'" using assms(3,4) by (simp add: div_pos_pos_trivial)
  ultimately have "q = q'" using eq by simp
  with eq show ?thesis by simp
qed

lemma fold_write_other:
  "\<forall>x\<in>set xs. pos x \<noteq> k \<Longrightarrow> fold (\<lambda>x m. m(pos x := w x)) xs (m :: cells) k = m k"
  by (induction xs arbitrary: m) auto

lemma fill_DBL_MAX_cell: "0 \<le> k \<Longrightarrow> k < n \<Longrightarrow> fill_DBL_MAX n mem k = Some DBL_MAX"
proof -
  have "fold (\<lambda>i m. m(i := Some DBL_MAX)) xs m k = (if k \<in> set xs then Some DBL_MAX else m k)"
    for xs and m :: cells
    by (induction xs arbitrary: m) simp_all
  then show "0 \<le> k \<Longrightarrow> k < n \<Longrightarrow> fill_DBL_MAX n mem k = Some DBL_MAX"
    by (simp add: fill_DBL_MAX_def)
qed

definition holds :: "int \<Rightarrow> real option \<Rightarrow> cells \<Rightarrow> bool" where
  "holds k v m \<longleftrightarrow> m k = v"

lemma copy_own_other:
  assumes "\<And>x y z t. 0 \<le> x \<Longrightarrow> x < local_nx b \<Longrightarrow> 0 \<le> y \<Longrightarrow> y < local_ny b \<Longrightarrow>
             0 \<le> z \<Longrightarrow> z < local_nz b \<Longrightarrow> 0 \<le> t \<Longrightarrow> t < nt \<Longrightarrow>
             idx3d (x + 1) (y + 1) (z + 1) (local_nx b + 2) (local_ny b + 2) * nt + t \<noteq> k"
  shows "copy_own full_data nx ny nt b m k = m k"
proof -
  have "holds k (m k) (copy_own full_data nx ny nt b m)"
    unfolding copy_own_def
  proof (intro fold_invariant [where P = "holds k (m k)"])
    show "holds k (m k) m" by (simp add: holds_def)
  next
    fix x y z and s :: cells
    assume r: "z \<in> set [0 .. local_nz b - 1]" "y \<in> set [0 .. local_ny b - 1]"
      "x \<in> set [0 .. local_nx b - 1]" and s: "holds k (m k) s"
    have "fold (\<lambda>t m. m(idx3d (x + 1) (y + 1) (z + 1) (local_nx b + 2) (local_ny b + 2) * nt + t
              := Some (full_data (idx3d (start_x b + x) (start_y b + y) (start_z b + z) nx ny
                   * nt + t))))
            [0 .. nt - 1] s k = s k"
      using r by (intro fold_write_other ballI assms) simp_all
    with s show "holds k (m k)
        (let src_idx = idx3d (start_x b + x) (start_y b + y) (start_z b + z) nx ny;
             dst_idx = idx3d (x + 1) (y + 1) (z + 1) (local_nx b + 2) (local_ny b + 2)
         in fold (\<lambda>t m. m(dst_idx * nt + t := Some (full_data (src_idx * nt + t))))
              [0 .. nt - 1] s)"
      by (simp add: holds_def)
  qed
  then show ?thesis by (simp add: holds_def)
qed

lemma copy_received_other:
  assumes "\<And>x y z t. 0 \<le> x \<Longrightarrow> x < local_nx b \<Longrightarrow> 0 \<le> y \<Longrightarrow> y < local_ny b \<Longrightarrow>
             0 \<le> z \<Longrightarrow> z < local_nz b \<Longrightarrow> 0 \<le> t \<Longrightarrow> t < nt \<Longrightarrow>
             idx3d (x + 1) (y + 1) (z + 1) (local_nx b + 2) (local_ny b + 2) * nt + t \<noteq> k"
  shows "copy_received recv_buf nt b m k = m k"
proof -
  have "holds k (m k) (copy_received recv_buf nt b m)"
    unfolding copy_received_def
  proof (intro fold_invariant [where P = "holds k (m k)"])
    show "holds k (m k) m" by (simp add: holds_def)
  next
    fix x y z and s :: cells
    assume r: "z \<in> set [0 .. local_nz b - 1]" "y \<in> set [0 .. local_ny b - 1]"
      "x \<in> set [0 .. local_nx b - 1]" and s: "holds k (m k) s"
    have "fold (\<lambda>t m. m(idx3d (x + 1) (y + 1) (z + 1) (local_nx b + 2) (local_ny b + 2) * nt + t
              := recv_buf (((z * local_ny b + y) * local_nx b + x) * nt + t)))
            [0 .. nt - 1] s k = s k"
      using r by (intro fold_write_other ballI assms) simp_all
    with s show "holds k (m k)
        (let src_idx = (z * local_ny b + y) * local_nx b + x;
             dst_idx = idx3d (x + 1) (y + 1) (z + 1) (local_nx b + 2) (local_ny b + 2)
         in fold (\<lambda>t m. m(dst_idx * nt + t := recv_buf (src_idx * nt + t)))
              [0 .. nt - 1] s)"
      by (simp add: holds_def)
  qed
  then show ?thesis by (simp add: holds_def)
qed

text \<open>A cell of the box with ghost layers, and whether it is a ghost cell.\<close>

definition in_ghost_box :: "box \<Rightarrow> int \<times> int \<times> int \<Rightarrow> bool" where
  "in_ghost_box b c = (case c of (gx, gy, gz) \<Rightarrow>
     0 \<le> gx \<and> gx < local_nx b + 2 \<and> 0 \<le> gy \<and> gy < local_ny b + 2 \<and>
     0 \<le> gz \<and> gz < local_nz b + 2)"

definition ghost_cell :: "box \<Rightarrow> int \<times> int \<times> int \<Rightarrow> bool" where
  "ghost_cell b c = (case c of (gx, gy, gz) \<Rightarrow>
     gx = 0 \<or> gx = local_nx b + 1 \<or> gy = 0 \<or> gy = local_ny b + 1 \<or>
     gz = 0 \<or> gz = local_nz b + 1)"

definition cell_index :: "box \<Rightarrow> int \<Rightarrow> int \<times> int \<times> int \<Rightarrow> int \<Rightarrow> int" where
  "cell_index b nt c t = (case c of (gx, gy, gz) \<Rightarrow>
     idx3d gx gy gz (local_nx b + 2) (local_ny b + 2) * nt + t)"

lemma cell_index_inj:
  assumes "in_ghost_box b c" "in_ghost_box b c'" "0 \<le> t" "t < nt" "0 \<le> t'" "t' < nt"
    and "cell_index b nt c t = cell_index b nt c' t'"
  shows "c = c' \<and> t = t'"
proof -
  obtain x y z where c: "c = (x, y, z)" by (cases c)
  obtain x' y' z' where c': "c' = (x', y', z')" by (cases c')
  from assms(7) have e: "((z * (local_ny b + 2) + y) * (local_nx b + 2) + x) * nt + t
      = ((z' * (local_ny b + 2) + y') * (local_nx b + 2) + x') * nt + t'"
    by (simp add: cell_index_def idx3d_def c c')
  from lin_inj [OF assms(3,4,5,6) e]
  have 1: "(z * (local_ny b + 2) + y) * (local_nx b + 2) + x
      = (z' * (local_ny b + 2) + y') * (local_nx b + 2) + x'" and t: "t = t'" by simp_all
  from assms(1,2) have bx: "0 \<le> x" "x < local_nx b + 2" "0 \<le> x'" "x' < local_nx b + 2"
    and by': "0 \<le> y" "y < local_ny b + 2" "0 \<le> y'" "y' < local_ny b + 2"
    by (simp_all add: in_ghost_box_def c c')
  from lin_inj [OF bx 1] have 2: "z * (local_ny b + 2) + y = z' * (local_ny b + 2) + y'"
    and x: "x = x'" by simp_all
  from lin_inj [OF by' 2] have "z = z'" "y = y'" by simp_all
  with x t show ?thesis by (simp add: c c')
qed

lemma cell_index_bound:
  assumes "in_ghost_box b c" "0 \<le> t" "t < nt"
  shows "0 \<le> cell_index b nt c t \<and> cell_index b nt c t < ghost_size b * nt"
proof -
  obtain x y z where c: "c = (x, y, z)" by (cases c)
  from assms(1) have bx: "0 \<le> x" "x < local_nx b + 2" and by': "0 \<le> y" "y < local_ny b + 2"
    and bz: "0 \<le> z" "z < local_nz b + 2"
    by (simp_all add: in_ghost_box_def c)
  from lin_bound [OF bz by']
  have 1: "0 \<le> z * (local_ny b + 2) + y"
    "z * (local_ny b + 2) + y < (local_nz b + 2) * (local_ny b + 2)" by simp_all
  from lin_bound [OF 1 bx]
  have 2: "0 \<le> (z * (local_ny b + 2) + y) * (local_nx b + 2) + x"
    "(z * (local_ny b + 2) + y) * (local_nx b + 2) + x
       < (local_nz b + 2) * (local_ny b + 2) * (local_nx b + 2)" by simp_all
  from lin_bound [OF 2 assms(2,3)] show ?thesis
    by (simp add: cell_index_def idx3d_def c ghost_size_def mult.commute mult.left_commute)
qed

lemma ghost_not_written:
  assumes g: "in_ghost_box b c" "ghost_cell b c" and t: "0 \<le> t" "t < nt"
    and o: "0 \<le> x" "x < local_nx b" "0 \<le> y" "y < local_ny b" "0 \<le> z" "z < local_nz b"
    and t': "0 \<le> t'" "t' < nt"
  shows "idx3d (x + 1) (y + 1) (z + 1) (local_nx b + 2) (local_ny b + 2) * nt + t'
           \<noteq> cell_index b nt c t"
proof
  assume "idx3d (x + 1) (y + 1) (z + 1) (local_nx b + 2) (local_ny b + 2) * nt + t'
           = cell_index b nt c t"
  then have "cell_index b nt (x + 1, y + 1, z + 1) t' = cell_index b nt c t"
    by (simp add: cell_index_def)
  moreover have "in_ghost_box b (x + 1, y + 1, z + 1)" using o by (simp add: in_ghost_box_def)
  ultimately have "(x + 1, y + 1, z + 1) = c"
    using cell_index_inj [of b "(x + 1, y + 1, z + 1)" c t' nt t] g(1) t t' by simp
  with g(2) o show False by (auto simp: ghost_cell_def)
qed

text \<open>
  1.c exchanges no ghost cells, so whatever the distribution leaves in a ghost cell is
  what the compute phase finds there: on rank 0 and on every other rank, on a face with a
  neighbour or without one, and for every timestep, that is the \<^verbatim>\<open>DBL_MAX\<close> of the
  initialisation.
\<close>

lemma ghost_cells_keep_DBL_MAX:
  assumes "in_ghost_box b c" and "ghost_cell b c" and "0 \<le> t" and "t < nt"
  shows "local_data_root full_data nx ny nt b mem (cell_index b nt c t) = Some DBL_MAX
       \<and> local_data_other recv_buf nt b mem (cell_index b nt c t) = Some DBL_MAX"
proof -
  have f: "fill_DBL_MAX (ghost_size b * nt) mem (cell_index b nt c t) = Some DBL_MAX"
    using cell_index_bound [OF assms(1,3,4)] by (intro fill_DBL_MAX_cell) simp_all
  have "local_data_root full_data nx ny nt b mem (cell_index b nt c t)
      = fill_DBL_MAX (ghost_size b * nt) mem (cell_index b nt c t)"
    unfolding local_data_root_def
    by (rule copy_own_other) (rule ghost_not_written [OF assms])
  moreover have "local_data_other recv_buf nt b mem (cell_index b nt c t)
      = fill_DBL_MAX (ghost_size b * nt) mem (cell_index b nt c t)"
    unfolding local_data_other_def
    by (rule copy_received_other) (rule ghost_not_written [OF assms])
  ultimately show ?thesis using f by simp
qed


text \<open>
  Two ranks side by side along x (\<^verbatim>\<open>px = 2\<close>) on a 2 x 1 x 1 domain with one timestep
  and the samples 3 and 4: the blocks of rank 0 and rank 1, and a block of memory that
  \<^verbatim>\<open>malloc\<close> has just returned.
\<close>

definition left_box :: box where
  "left_box = \<lparr> start_x = 0, start_y = 0, start_z = 0,
                 local_nx = 1, local_ny = 1, local_nz = 1 \<rparr>"

definition right_box :: box where
  "right_box = \<lparr> start_x = 1, start_y = 0, start_z = 0,
                  local_nx = 1, local_ny = 1, local_nz = 1 \<rparr>"

definition fresh_cells :: cells where
  "fresh_cells i = None"

lemma two_boxes:
  "box_of 0 2 1 1 2 1 1 = Some left_box" "box_of 1 2 1 1 2 1 1 = Some right_box"
  by (simp_all add: box_of_def left_box_def right_box_def signed_divide_int_def
      signed_modulo_int_def)

lemma two_sends: "send_all two_data 2 1 1 2 1 1 1 2 = Some [\<lparr> dest = 1, payload = [Some 4] \<rparr>]"
  by (simp add: send_all_def two_boxes send_block_def right_box_def idx3d_def two_data_def
      upto_rec1)

text \<open>
  Claim C2 at a failing input of 1.c: two ranks, \<^verbatim>\<open>px = 2\<close>, a 2 x 1 x 1 domain with the
  samples 3 and 4 and one timestep. Rank 0 has the live neighbour rank 1 on its upper x
  face. When the compute phase starts, the outermost owned cell of rank 1 next to that
  face holds 4 and the ghost cell of rank 0 on that face holds \<^verbatim>\<open>DBL_MAX\<close>: the ghost
  layer does not equal the neighbour's boundary layer.
\<close>

theorem ghost_layer_not_exchanged:
  "box_of 0 2 1 1 2 1 1 = Some left_box \<and> box_of 1 2 1 1 2 1 1 = Some right_box
   \<and> send_all two_data 2 1 1 2 1 1 1 2 = Some [\<lparr> dest = 1, payload = [Some 4] \<rparr>]
   \<and> first_message [\<lparr> dest = 1, payload = [Some 4] \<rparr>] 1 = Some \<lparr> dest = 1, payload = [Some 4] \<rparr>
   \<and> local_data_other (recv_cells \<lparr> dest = 1, payload = [Some 4] \<rparr>) 1 right_box fresh_cells
        (cell_index right_box 1 (1, 1, 1) 0) = Some 4
   \<and> local_data_root two_data 2 1 1 left_box fresh_cells (cell_index left_box 1 (2, 1, 1) 0)
        = Some DBL_MAX
   \<and> DBL_MAX \<noteq> 4"
proof -
  have 1: "local_data_other (recv_cells \<lparr> dest = 1, payload = [Some 4] \<rparr>) 1 right_box fresh_cells
        (cell_index right_box 1 (1, 1, 1) 0) = Some 4"
    by (simp add: local_data_other_def copy_received_def right_box_def cell_index_def idx3d_def
        recv_cells_def)
  have 2: "local_data_root two_data 2 1 1 left_box fresh_cells (cell_index left_box 1 (2, 1, 1) 0)
        = Some DBL_MAX"
    by (simp add: local_data_root_def copy_own_def left_box_def cell_index_def idx3d_def
        fill_DBL_MAX_cell ghost_size_def)
  have 3: "DBL_MAX \<noteq> 4" using DBL_MAX_large by simp
  show ?thesis
    by (simp add: two_boxes two_sends first_message_def 1 2 3)
qed

subsection \<open>The send of pankaj\_code.c\<close>

text \<open>
  Lines 132-161 for the receiver \<open>p\<close>: \<^verbatim>\<open>tempBuffer[bufIdx++] = globalData[globalIdx + t]\<close>
  fills the buffer from its start, and \<^verbatim>\<open>MPI_Send(tempBuffer, subDomainSize, ...)\<close> sends
  its first \<^verbatim>\<open>subDomainSize\<close> cells.
\<close>

definition temp_buffer ::
  "(int \<Rightarrow> real) \<Rightarrow> int \<Rightarrow> int \<Rightarrow> int \<Rightarrow> int \<Rightarrow> int \<Rightarrow> int \<Rightarrow> int \<Rightarrow> int \<Rightarrow> int \<Rightarrow> real list" where
  "temp_buffer globalData nX nY timeSteps pStartX pStartY pStartZ
       subDomainSizeX subDomainSizeY subDomainSizeZ =
     fold (\<lambda>z. fold (\<lambda>y. fold (\<lambda>x tempBuffer.
              let globalIdx = (z * nX * nY + y * nX + x) * timeSteps
              in fold (\<lambda>t tempBuffer. tempBuffer @ [globalData (globalIdx + t)])
                   [0 .. timeSteps - 1] tempBuffer)
            [pStartX .. pStartX + subDomainSizeX - 1])
          [pStartY .. pStartY + subDomainSizeY - 1])
        [pStartZ .. pStartZ + subDomainSizeZ - 1] []"

definition send_to ::
  "(int \<Rightarrow> real) \<Rightarrow> int \<Rightarrow> int \<Rightarrow> int \<Rightarrow> int \<Rightarrow> int \<Rightarrow> int \<Rightarrow> int \<Rightarrow> int \<Rightarrow> real list option" where
  "send_to globalData pX pY pZ nX nY nZ timeSteps p =
     (if pX = 0 \<or> pY = 0 \<or> pZ = 0 then None
      else
        let subDomainSizeX = nX sdiv pX;
            subDomainSizeY = nY sdiv pY;
            subDomainSizeZ = nZ sdiv pZ;
            subDomainSize = subDomainSizeX * subDomainSizeY * subDomainSizeZ;
            posZ = p sdiv (pX * pY);
            posY = (p smod (pX * pY)) sdiv pX;
            posX = p smod pX;
            pStartX = posX * subDomainSizeX;
            pStartY = posY * subDomainSizeY;
            pStartZ = posZ * subDomainSizeZ;
            tempBuffer = temp_buffer globalData nX nY timeSteps pStartX pStartY pStartZ
                           subDomainSizeX subDomainSizeY subDomainSizeZ
        in Some (take (nat subDomainSize) tempBuffer))"

text \<open>The block of rank 1 when two ranks split a 4 x 1 x 1 domain along x.\<close>

definition tail_box :: box where
  "tail_box = \<lparr> start_x = 2, start_y = 0, start_z = 0,
                 local_nx = 2, local_ny = 1, local_nz = 1 \<rparr>"

text \<open>
  Claim C3 at a failing input of 1.c: two ranks, \<^verbatim>\<open>px = 2\<close>, a 4 x 1 x 1 domain with the
  samples 5, 1, 1, 9 and one timestep. Rank 1 owns the points 2 and 3. Rank 0 issues two
  sends to rank 1, one per point, each of the full length 2 and each with one cell
  written; rank 1 posts one receive. The first send is received: the first owned cell of
  rank 1 gets its sample, the second gets whatever the unwritten cell of the buffer
  held, not the 9 of the field; the second send is never received. In pankaj\_code.c,
  with two timesteps on a 2 x 1 x 1 domain and \<^verbatim>\<open>pX = 2\<close>, the send to rank 1 carries
  \<^verbatim>\<open>subDomainSize = 1\<close> cell, the 7 of the series 7, 9 of its point.
\<close>

theorem one_send_per_point:
  "box_of 1 2 1 1 4 1 1 = Some tail_box
   \<and> send_all line_data 2 1 1 4 1 1 1 2 =
       Some [\<lparr> dest = 1, payload = [Some 1, None] \<rparr>, \<lparr> dest = 1, payload = [None, Some 9] \<rparr>]
   \<and> first_message [\<lparr> dest = 1, payload = [Some 1, None] \<rparr>,
                     \<lparr> dest = 1, payload = [None, Some 9] \<rparr>] 1
       = Some \<lparr> dest = 1, payload = [Some 1, None] \<rparr>
   \<and> local_data_other (recv_cells \<lparr> dest = 1, payload = [Some 1, None] \<rparr>) 1 tail_box mem
        (cell_index tail_box 1 (1, 1, 1) 0) = Some (line_data 2)
   \<and> local_data_other (recv_cells \<lparr> dest = 1, payload = [Some 1, None] \<rparr>) 1 tail_box mem
        (cell_index tail_box 1 (2, 1, 1) 0) = None
   \<and> line_data 3 = 9
   \<and> send_to series_data 2 1 1 2 1 1 2 1 = Some [7]
   \<and> series_data (1 * 2 + 0) = 7 \<and> series_data (1 * 2 + 1) = 9"
proof -
  have b: "box_of 1 2 1 1 4 1 1 = Some tail_box"
    by (simp add: box_of_def tail_box_def signed_divide_int_def signed_modulo_int_def)
  have s: "send_all line_data 2 1 1 4 1 1 1 2 =
       Some [\<lparr> dest = 1, payload = [Some 1, None] \<rparr>, \<lparr> dest = 1, payload = [None, Some 9] \<rparr>]"
    by (simp add: send_all_def b send_block_def tail_box_def idx3d_def line_data_def upto_rec1)
  have 1: "local_data_other (recv_cells \<lparr> dest = 1, payload = [Some 1, None] \<rparr>) 1 tail_box mem
        (cell_index tail_box 1 (1, 1, 1) 0) = Some (line_data 2)"
    by (simp add: local_data_other_def copy_received_def tail_box_def cell_index_def idx3d_def
        recv_cells_def upto_rec1 line_data_def)
  have 2: "local_data_other (recv_cells \<lparr> dest = 1, payload = [Some 1, None] \<rparr>) 1 tail_box mem
        (cell_index tail_box 1 (2, 1, 1) 0) = None"
    by (simp add: local_data_other_def copy_received_def tail_box_def cell_index_def idx3d_def
        recv_cells_def upto_rec1)
  have p: "send_to series_data 2 1 1 2 1 1 2 1 = Some [7]"
    by (simp add: send_to_def temp_buffer_def series_data_def signed_divide_int_def
        signed_modulo_int_def upto_rec1)
  show ?thesis
    by (simp add: b s 1 2 p first_message_def) (simp add: line_data_def series_data_def)
qed

end
